theory Spec2Isabelle
  imports Main "HOL-Library.DAList"
begin

section \<open>Data model of the burner manager\<close>

text \<open>
  The manager class of \<^verbatim>\<open>burnerManager.ts\<close> is embedded as functions on an explicit
  state: the fields of the class, the browser's local storage, and the trace of the calls
  made to the outside (the account SDK, the provider, the registered callbacks).

  Strings of the source are \<open>string\<close>. A JavaScript object used as a dictionary keeps
  its string keys distinct and enumerates them in insertion order (for keys that are not
  array indices, as the addresses \<^verbatim>\<open>0x...\<close> the manager writes are not); it is an
  association list with distinct keys, \<open>(string, 'v) alist\<close>. The objects the manager
  reads are made by \<^verbatim>\<open>JSON.parse\<close> or are \<^verbatim>\<open>{}\<close>: their keys are own properties and
  their prototype is \<^verbatim>\<open>Object.prototype\<close>, so a read \<^verbatim>\<open>storage[address]\<close> finds an own
  key first and a property of \<^verbatim>\<open>Object.prototype\<close> otherwise (\<open>get_property\<close> below).

  An \<^verbatim>\<open>async\<close> method runs without interruption between two \<^verbatim>\<open>await\<close>s. Each method
  is embedded as one function, as if nothing else ran while it waits, except where the
  code itself runs several calls at once (\<^verbatim>\<open>clear\<close>) or leaves one running
  (\<^verbatim>\<open>init\<close>): there the function is split at the \<^verbatim>\<open>await\<close>.
\<close>

record Account =
  address :: string
  signer :: "string option"

record InvocationsDetails =
  nonce :: "string option"
  maxFee :: "string option"

record Call =
  contractAddress :: string
  entrypoint :: string
  calldata :: "string list"

record DeployAccountPayload =
  classHash :: string
  constructorCalldata :: "string list"
  addressSalt :: string

text \<open>
  One value of \<^verbatim>\<open>BurnerStorage\<close>, with the fields \<^verbatim>\<open>create\<close> writes. The two optional
  fields are \<open>None\<close> when the property is absent.
\<close>

record BurnerEntry =
  chainId :: string
  privateKey :: string
  publicKey :: string
  deployTx :: string
  masterAccount :: string
  active :: bool
  accountIndex :: "int option"
  metadata :: "string option"

type_synonym BurnerStorage = "(string, BurnerEntry) alist"

text \<open>An element of the array \<^verbatim>\<open>list()\<close> returns.\<close>

record Burner =
  burner_address :: string
  burner_active :: bool
  burner_masterAccount :: string
  burner_accountIndex :: "int option"

record BurnerCreateOptions =
  secret :: "string option"
  index :: "int option"
  opt_metadata :: "string option"
  prefundedAmount :: "string option"
  transactionDetails :: "InvocationsDetails option"

text \<open>
  Errors are values. \<open>Error msg\<close> is \<^verbatim>\<open>new Error(msg)\<close> thrown by the code of this
  repository; \<open>Rejected msg\<close> is whatever an outside call threw, passed on unchanged.
\<close>

datatype error = Error string | Rejected string

text \<open>The calls that leave the manager, in the order they are made.\<close>

datatype event =
    GetChainId
  | GetNonce string
  | Execute string "Call list" InvocationsDetails
  | WaitForTransaction string nat
  | DeployAccount Account DeployAccountPayload InvocationsDetails
  | GetTransactionReceipt string
  | EmptyAccount string Account string "InvocationsDetails option"
  | SetIsDeploying bool
  | AfterDeploying Account string

text \<open>
  The outside world answers each call. An answer may depend on the moment of the call (the
  number of calls made before it), so that the same request can be answered differently
  later. \<open>Inl msg\<close> is a rejected promise or a thrown exception. The result of
  \<open>getTransactionReceipt\<close> is \<open>None\<close> for \<^verbatim>\<open>null\<close> (the code tests
  \<^verbatim>\<open>receipt !== null\<close>); the result of \<open>waitForTransaction\<close> is \<open>None\<close> when it is
  falsy (the code tests \<^verbatim>\<open>!receipt\<close>).

  \<open>emptyAccount\<close> and \<open>derivePrivateKeyFromSeed\<close> are imported by the manager from
  sibling modules of this repository (\<^verbatim>\<open>./emptyAccount\<close>, \<^verbatim>\<open>../utils/keyDerivation\<close>)
  whose sources are not available; they are parameters here like the SDK's functions.
\<close>

record env =
  getChainId :: "nat \<Rightarrow> string + string"
  decodeShortString :: "string \<Rightarrow> string"
  getNonce :: "nat \<Rightarrow> string \<Rightarrow> string + string"
  execute :: "nat \<Rightarrow> string \<Rightarrow> Call list \<Rightarrow> InvocationsDetails \<Rightarrow> string + string"
  waitForTransaction :: "nat \<Rightarrow> string \<Rightarrow> string + string option"
  deployAccount ::
    "nat \<Rightarrow> Account \<Rightarrow> DeployAccountPayload \<Rightarrow> InvocationsDetails \<Rightarrow> string + string"
  getTransactionReceipt :: "nat \<Rightarrow> string \<Rightarrow> string + string option"
  randomAddress :: "nat \<Rightarrow> string"
  getStarkKey :: "string \<Rightarrow> string"
  calculateContractAddressFromHash :: "string \<Rightarrow> string \<Rightarrow> string list \<Rightarrow> nat \<Rightarrow> string"
  compile :: "string list \<Rightarrow> string list"
  emptyAccount ::
    "nat \<Rightarrow> string \<Rightarrow> Account \<Rightarrow> string \<Rightarrow> InvocationsDetails option \<Rightarrow> string + unit"
  derivePrivateKeyFromSeed :: "string \<Rightarrow> int \<Rightarrow> string"

text \<open>
  The fields of \<^verbatim>\<open>BurnerManager\<close> (prefixed \<open>this_\<close>), the local storage and the
  trace. The two callbacks are outside code: the state records whether one is registered,
  and a call to it is an event of the trace.
\<close>

record state =
  this_masterAccount :: Account
  this_accountClassHash :: string
  this_feeTokenAddress :: string
  this_chainId :: string
  this_account :: "Account option"
  this_isDeploying :: bool
  this_isInitialized :: bool
  this_setIsDeploying :: bool
  this_afterDeploying :: bool
  localStorage :: "string \<rightharpoonup> BurnerStorage"
  calls :: "event list"

type_synonym 'a result = "(error + 'a) \<times> state"

definition PREFUND_AMOUNT :: string where
  "PREFUND_AMOUNT = ''0x2386f26fc10000''"

definition now :: "state \<Rightarrow> nat" where
  "now s = length (calls s)"

definition emit :: "event \<Rightarrow> state \<Rightarrow> state" where
  "emit e s = s\<lparr>calls := calls s @ [e]\<rparr>"

text \<open>The constructor: the options are copied, every other field has its initialiser.\<close>

definition constructor :: "Account \<Rightarrow> string \<Rightarrow> string \<Rightarrow> (string \<rightharpoonup> BurnerStorage) \<Rightarrow> state" where
  "constructor master accountClassHash feeTokenAddress ls =
     \<lparr>this_masterAccount = master, this_accountClassHash = accountClassHash,
      this_feeTokenAddress = feeTokenAddress, this_chainId = '''', this_account = None,
      this_isDeploying = False, this_isInitialized = False, this_setIsDeploying = False,
      this_afterDeploying = False, localStorage = ls, calls = []\<rparr>"

section \<open>Local storage\<close>

text \<open>
  The module \<^verbatim>\<open>../utils/storage\<close> is not among the sources. The specification calls
  what it wraps a local persistent key-value store that mirrors the results. The three
  functions the manager calls are modelled on a map from keys to stored values; every read
  returns a fresh copy, so what a caller changes in the object it read stays local until
  it calls \<open>Storage_set\<close>.
\<close>

text \<open>
  Modelled from the spec: \<^verbatim>\<open>Storage.get\<close> of the missing module \<^verbatim>\<open>../utils/storage\<close>,
  the read of the local key-value store: the value stored under the key, \<open>None\<close>
  (a falsy result) when there is none.
\<close>

definition Storage_get :: "string \<Rightarrow> state \<Rightarrow> BurnerStorage option" where
  "Storage_get key s = localStorage s key"

text \<open>
  Modelled from the spec: \<^verbatim>\<open>Storage.set\<close> of the missing module \<^verbatim>\<open>../utils/storage\<close>,
  the write of the local key-value store: the value under the key is replaced.
\<close>

definition Storage_set :: "string \<Rightarrow> BurnerStorage \<Rightarrow> state \<Rightarrow> state" where
  "Storage_set key v s = s\<lparr>localStorage := (localStorage s)(key \<mapsto> v)\<rparr>"

text \<open>
  Modelled from the spec: \<^verbatim>\<open>Storage.remove\<close> of the missing module \<^verbatim>\<open>../utils/storage\<close>:
  the key is deleted from the local key-value store.
\<close>

definition Storage_remove :: "string \<Rightarrow> state \<Rightarrow> state" where
  "Storage_remove key s = s\<lparr>localStorage := (localStorage s)(key := None)\<rparr>"

subsection \<open>Objects as dictionaries\<close>

text \<open>\<^verbatim>\<open>Object.keys(storage)\<close> and \<^verbatim>\<open>Object.entries(storage)\<close>.\<close>

definition keys :: "BurnerStorage \<Rightarrow> string list" where
  "keys storage = map fst (DAList.impl_of storage)"

definition entries :: "BurnerStorage \<Rightarrow> (string \<times> BurnerEntry) list" where
  "entries storage = DAList.impl_of storage"

text \<open>The loop \<^verbatim>\<open>for (let addr in storage) storage[addr].active = false\<close>.\<close>

lift_definition deactivate_all :: "BurnerStorage \<Rightarrow> BurnerStorage"
  is "map (\<lambda>(addr, e). (addr, e\<lparr>active := False\<rparr>))"
  by (simp add: comp_def case_prod_beta)

text \<open>
  The read \<^verbatim>\<open>storage[address]\<close>. An own key gives its entry. A name that is not an own
  key but is a property of \<^verbatim>\<open>Object.prototype\<close> gives that inherited value: a builtin
  function, or \<^verbatim>\<open>Object.prototype\<close> itself for \<^verbatim>\<open>__proto__\<close>; each is truthy and has no
  property \<^verbatim>\<open>privateKey\<close>. Any other name gives \<^verbatim>\<open>undefined\<close>. The inherited
  properties are not enumerable: \<^verbatim>\<open>for ... in\<close>, \<^verbatim>\<open>Object.keys\<close> and \<^verbatim>\<open>JSON.stringify\<close>
  see the own keys only, and \<^verbatim>\<open>delete storage[address]\<close> removes an own key only.
\<close>

datatype property = Own BurnerEntry | Inherited | Undefined

definition Object_prototype :: "string list" where
  "Object_prototype =
     [''constructor'', ''__defineGetter__'', ''__defineSetter__'', ''hasOwnProperty'',
      ''__lookupGetter__'', ''__lookupSetter__'', ''isPrototypeOf'',
      ''propertyIsEnumerable'', ''toString'', ''valueOf'', ''__proto__'',
      ''toLocaleString'']"

definition get_property :: "BurnerStorage \<Rightarrow> string \<Rightarrow> property" where
  "get_property storage addr =
     (case DAList.lookup storage addr of
        Some e \<Rightarrow> Own e
      | None \<Rightarrow> if addr \<in> set Object_prototype then Inherited else Undefined)"

section \<open>The manager's methods\<close>

definition updateIsDeploying :: "bool \<Rightarrow> state \<Rightarrow> state" where
  "updateIsDeploying status s =
     (let s1 = s\<lparr>this_isDeploying := status\<rparr>
      in if this_setIsDeploying s1 then emit (SetIsDeploying status) s1 else s1)"

definition getBurnerKey :: "state \<Rightarrow> string" where
  "getBurnerKey s = ''burners_'' @ this_chainId s"

definition getBurnerStorage :: "state \<Rightarrow> BurnerStorage" where
  "getBurnerStorage s =
     (case Storage_get (getBurnerKey s) s of None \<Rightarrow> DAList.empty | Some storage \<Rightarrow> storage)"

definition setActiveBurnerAccount :: "BurnerStorage \<Rightarrow> state \<Rightarrow> state" where
  "setActiveBurnerAccount storage s =
     (case find (\<lambda>(addr, e). active e) (entries storage) of
        None \<Rightarrow> s
      | Some (addr, e) \<Rightarrow> s\<lparr>this_account := Some \<lparr>address = addr, signer = Some (privateKey e)\<rparr>\<rparr>)"

definition isBurnerDeployed :: "env \<Rightarrow> string \<Rightarrow> state \<Rightarrow> bool \<times> state" where
  "isBurnerDeployed w tx s =
     (case getTransactionReceipt w (now s) tx of
        Inl _ \<Rightarrow> (False, emit (GetTransactionReceipt tx) s)
      | Inr receipt \<Rightarrow> (receipt \<noteq> None, emit (GetTransactionReceipt tx) s))"

definition list :: "state \<Rightarrow> Burner list" where
  "list s =
     filter (\<lambda>burner. burner_masterAccount burner = address (this_masterAccount s))
       (map (\<lambda>(addr, e). \<lparr>burner_address = addr, burner_active = active e,
                          burner_masterAccount = masterAccount e,
                          burner_accountIndex = accountIndex e\<rparr>)
          (entries (getBurnerStorage s)))"

text \<open>
  \<^verbatim>\<open>select\<close>. The guard \<^verbatim>\<open>!storage[address]\<close> throws on \<^verbatim>\<open>undefined\<close> only. On an
  inherited name the loop clears the flag of every own entry, the assignment
  \<^verbatim>\<open>storage[address].active = true\<close> lands on the inherited object and not on the
  storage, the storage is persisted with every flag cleared, and the account is made
  with the inherited object's \<^verbatim>\<open>privateKey\<close>, which is \<^verbatim>\<open>undefined\<close>. Builtin objects
  are not part of the state: each method is embedded on the \<^verbatim>\<open>Object.prototype\<close> the
  runtime provides.
\<close>

definition select :: "string \<Rightarrow> state \<Rightarrow> unit result" where
  "select addr s =
     (let storage = getBurnerStorage s in
      case get_property storage addr of
        Undefined \<Rightarrow> (Inl (Error ''burner not found''), s)
      | Inherited \<Rightarrow>
          (let storage1 = deactivate_all storage;
               s1 = Storage_set (getBurnerKey s) storage1 s
           in (Inr (), s1\<lparr>this_account := Some \<lparr>address = addr, signer = None\<rparr>\<rparr>))
      | Own _ \<Rightarrow>
          (let storage1 = deactivate_all storage;
               storage2 = DAList.map_entry addr (\<lambda>e. e\<lparr>active := True\<rparr>) storage1;
               s1 = Storage_set (getBurnerKey s) storage2 s
           in case DAList.lookup storage2 addr of
                None \<Rightarrow> (Inl (Rejected ''TypeError''), s1)
              | Some e \<Rightarrow>
                  (Inr (),
                   s1\<lparr>this_account := Some \<lparr>address = addr, signer = Some (privateKey e)\<rparr>\<rparr>)))"

definition deselect :: "state \<Rightarrow> state" where
  "deselect s =
     (let storage = deactivate_all (getBurnerStorage s);
          s1 = Storage_set (getBurnerKey s) storage s
      in s1\<lparr>this_account := None\<rparr>)"

text \<open>
  \<^verbatim>\<open>get\<close>, with the same guard: on an inherited name it returns an account whose
  private key is \<^verbatim>\<open>undefined\<close>.
\<close>

definition get :: "string \<Rightarrow> state \<Rightarrow> error + Account" where
  "get addr s =
     (case get_property (getBurnerStorage s) addr of
        Undefined \<Rightarrow> Inl (Error ''burner not found'')
      | Inherited \<Rightarrow> Inr \<lparr>address = addr, signer = None\<rparr>
      | Own e \<Rightarrow> Inr \<lparr>address = addr, signer = Some (privateKey e)\<rparr>)"

subsection \<open>Prefunding (\<^verbatim>\<open>prefundAccount.ts\<close>)\<close>

text \<open>
  \<^verbatim>\<open>x || d\<close> and \<^verbatim>\<open>if (x)\<close> on an optional string: \<^verbatim>\<open>undefined\<close>, \<^verbatim>\<open>null\<close> and the
  empty string are falsy.
\<close>

definition truthy :: "string option \<Rightarrow> bool" where
  "truthy x = (case x of None \<Rightarrow> False | Some v \<Rightarrow> v \<noteq> [])"

text \<open>The object \<^verbatim>\<open>{ maxFee: 0, nonce, ...transactionDetails }\<close>.\<close>

definition with_details :: "string option \<Rightarrow> InvocationsDetails option \<Rightarrow> InvocationsDetails" where
  "with_details n td =
     (case td of
        None \<Rightarrow> \<lparr>nonce = n, maxFee = Some ''0''\<rparr>
      | Some d \<Rightarrow>
          \<lparr>nonce = (case nonce d of None \<Rightarrow> n | Some x \<Rightarrow> Some x),
           maxFee = (case maxFee d of None \<Rightarrow> Some ''0'' | Some x \<Rightarrow> Some x)\<rparr>)"

definition transferOptions :: "env \<Rightarrow> string \<Rightarrow> string \<Rightarrow> string \<Rightarrow> Call" where
  "transferOptions w addr feeTokenAddress prefundAmount =
     \<lparr>contractAddress = feeTokenAddress, entrypoint = ''transfer'',
      calldata = compile w [addr, prefundAmount, ''0x0'']\<rparr>"

definition prefundAccount ::
  "env \<Rightarrow> string \<Rightarrow> Account \<Rightarrow> string \<Rightarrow> string \<Rightarrow> InvocationsDetails option \<Rightarrow> state
     \<Rightarrow> string result" where
  "prefundAccount w addr account feeTokenAddress prefundAmount td s =
     (let s1 = emit (GetNonce (address account)) s in
      case getNonce w (now s) (address account) of
        Inl e \<Rightarrow> (Inl (Rejected e), s1)
      | Inr n \<Rightarrow>
          (let call = transferOptions w addr feeTokenAddress prefundAmount;
               details = with_details (Some n) td;
               s2 = emit (Execute (address account) [call] details) s1
           in case execute w (now s1) (address account) [call] details of
                Inl e \<Rightarrow> (Inl (Rejected e), s2)
              | Inr transaction_hash \<Rightarrow>
                  (let s3 = emit (WaitForTransaction transaction_hash 1000) s2
                   in case waitForTransaction w (now s2) transaction_hash of
                        Inl e \<Rightarrow> (Inl (Rejected e), s3)
                      | Inr None \<Rightarrow>
                          (Inl (Error ''Transaction did not complete successfully.''), s3)
                      | Inr (Some receipt) \<Rightarrow> (Inr receipt, s3))))"

subsection \<open>Creating a burner\<close>

record BurnerKeys =
  keys_privateKey :: string
  keys_publicKey :: string
  keys_address :: string

definition generateKeysAndAddress :: "env \<Rightarrow> BurnerCreateOptions option \<Rightarrow> state \<Rightarrow> BurnerKeys" where
  "generateKeysAndAddress w options s =
     (let pk =
        (case options of
           None \<Rightarrow> randomAddress w (now s)
         | Some opts \<Rightarrow>
             (case secret opts of
                None \<Rightarrow> randomAddress w (now s)
              | Some sec \<Rightarrow>
                  if sec \<noteq> []
                  then derivePrivateKeyFromSeed w sec (case index opts of None \<Rightarrow> 0 | Some i \<Rightarrow> i)
                  else randomAddress w (now s)));
          pub = getStarkKey w pk
      in \<lparr>keys_privateKey = pk, keys_publicKey = pub,
          keys_address =
            calculateContractAddressFromHash w pub (this_accountClassHash s) (compile w [pub]) 0\<rparr>)"

text \<open>
  Lines 378 to 393 of \<^verbatim>\<open>create\<close>: the nonce of the current account, when there is one,
  then \<^verbatim>\<open>burner.deployAccount\<close>. Either rejection resets the deploying flag and is
  thrown again.
\<close>

definition create_deployAccount ::
  "env \<Rightarrow> Account \<Rightarrow> DeployAccountPayload \<Rightarrow> InvocationsDetails \<Rightarrow> state \<Rightarrow> string result" where
  "create_deployAccount w burner accountOptions details s =
     (let s1 = emit (DeployAccount burner accountOptions details) s in
      case deployAccount w (now s) burner accountOptions details of
        Inl e \<Rightarrow> (Inl (Rejected e), updateIsDeploying False s1)
      | Inr transaction_hash \<Rightarrow> (Inr transaction_hash, s1))"

definition create_deploy ::
  "env \<Rightarrow> Account \<Rightarrow> DeployAccountPayload \<Rightarrow> InvocationsDetails option \<Rightarrow> state \<Rightarrow> string result" where
  "create_deploy w burner accountOptions td s =
     (case this_account s of
        None \<Rightarrow> create_deployAccount w burner accountOptions (with_details None td) s
      | Some a \<Rightarrow>
          (let s1 = emit (GetNonce (address a)) s in
           case getNonce w (now s) (address a) of
             Inl e \<Rightarrow> (Inl (Rejected e), updateIsDeploying False s1)
           | Inr n \<Rightarrow> create_deployAccount w burner accountOptions (with_details (Some n) td) s1))"

text \<open>Lines 395 to 412: the receipt is looked up once, then waited for when there is none.\<close>

definition create_wait :: "env \<Rightarrow> string \<Rightarrow> state \<Rightarrow> unit result" where
  "create_wait w tx s =
     (case isBurnerDeployed w tx s of
        (True, s1) \<Rightarrow> (Inr (), s1)
      | (False, s1) \<Rightarrow>
          (let s2 = emit (WaitForTransaction tx 100) s1 in
           case waitForTransaction w (now s1) tx of
             Inl e \<Rightarrow> (Inl (Rejected e), s2)
           | Inr None \<Rightarrow> (Inl (Error ''Transaction did not complete successfully.''), s2)
           | Inr (Some receipt) \<Rightarrow> (Inr (), s2)))"

text \<open>The entry written at lines 419 to 433.\<close>

definition new_entry :: "BurnerCreateOptions option \<Rightarrow> BurnerKeys \<Rightarrow> string \<Rightarrow> state \<Rightarrow> BurnerEntry" where
  "new_entry options k tx s =
     \<lparr>chainId = this_chainId s, privateKey = keys_privateKey k, publicKey = keys_publicKey k,
      deployTx = tx, masterAccount = address (this_masterAccount s), active = True,
      accountIndex =
        (case options of
           None \<Rightarrow> None
         | Some opts \<Rightarrow> if truthy (secret opts) then index opts else None),
      metadata =
        (case options of
           None \<Rightarrow> None
         | Some opts \<Rightarrow> if truthy (opt_metadata opts) then opt_metadata opts else None)\<rparr>"

text \<open>
  Lines 414 to 447: no call is awaited between the read of the storage and the write, so
  this part runs as one step. The callback \<^verbatim>\<open>afterDeploying\<close> is outside code: it is
  given the account and the hash, what it throws is caught and logged, and it is taken
  not to call the manager back.
\<close>

definition create_store ::
  "BurnerCreateOptions option \<Rightarrow> BurnerKeys \<Rightarrow> string \<Rightarrow> Account \<Rightarrow> state \<Rightarrow> state" where
  "create_store options k tx burner s =
     (let storage = deactivate_all (getBurnerStorage s);
          storage1 = DAList.update (keys_address k) (new_entry options k tx s) storage;
          s1 = s\<lparr>this_account := Some burner\<rparr>;
          s2 = updateIsDeploying False s1;
          s3 = Storage_set (getBurnerKey s2) storage1 s2
      in if this_afterDeploying s3 then emit (AfterDeploying burner tx) s3 else s3)"

text \<open>
  \<^verbatim>\<open>create\<close>. The field \<^verbatim>\<open>masterAccount\<close> has the type \<^verbatim>\<open>Account\<close> and is set by the
  constructor, so the guard of line 353 never throws. A rejected prefund is caught at
  line 364: the flag is reset and the method goes on.
\<close>

definition create :: "env \<Rightarrow> BurnerCreateOptions option \<Rightarrow> state \<Rightarrow> Account result" where
  "create w options s =
     (if \<not> this_isInitialized s then (Inl (Error ''BurnerManager is not initialized''), s)
      else
        (let s1 = updateIsDeploying True s;
             k = generateKeysAndAddress w options s1;
             td = (case options of None \<Rightarrow> None | Some opts \<Rightarrow> transactionDetails opts);
             amount =
               (case options of
                  None \<Rightarrow> PREFUND_AMOUNT
                | Some opts \<Rightarrow>
                    if truthy (prefundedAmount opts)
                    then (case prefundedAmount opts of None \<Rightarrow> PREFUND_AMOUNT | Some a \<Rightarrow> a)
                    else PREFUND_AMOUNT);
             accountOptions =
               \<lparr>classHash = this_accountClassHash s1,
                constructorCalldata = compile w [keys_publicKey k],
                addressSalt = keys_publicKey k\<rparr>;
             burner = \<lparr>address = keys_address k, signer = Some (keys_privateKey k)\<rparr>
         in case prefundAccount w (keys_address k) (this_masterAccount s1)
                   (this_feeTokenAddress s1) amount td s1 of
              (r, s2) \<Rightarrow>
                (let s3 = (case r of Inl _ \<Rightarrow> updateIsDeploying False s2 | Inr _ \<Rightarrow> s2)
                 in case create_deploy w burner accountOptions td s3 of
                      (Inl e, s4) \<Rightarrow> (Inl e, s4)
                    | (Inr tx, s4) \<Rightarrow>
                        (case create_wait w tx s4 of
                           (Inl e, s5) \<Rightarrow> (Inl e, s5)
                         | (Inr _, s5) \<Rightarrow> (Inr burner, create_store options k tx burner s5)))))"

subsection \<open>Deleting burners\<close>

text \<open>
  \<^verbatim>\<open>delete\<close> is suspended once, at \<^verbatim>\<open>await emptyAccount(...)\<close>. What runs before is
  \<open>delete_begin\<close>: the storage is read into a local copy, the guard
  \<^verbatim>\<open>!storage[address]\<close> is tested (it passes on an inherited name too), the drain is
  requested. What runs after the drain has answered is \<open>delete_finish\<close>, on the
  copy read before. A \<open>pending_delete\<close> is the promise in between: already rejected
  (\<open>Threw\<close>), already returned from the \<^verbatim>\<open>catch\<close> block (\<open>Caught\<close>), or waiting for
  the drain with its copy of the storage (\<open>Draining\<close>).
\<close>

datatype pending_delete =
    Threw error
  | Caught
  | Draining BurnerStorage string "string + unit"

definition delete_begin ::
  "env \<Rightarrow> string \<Rightarrow> InvocationsDetails option \<Rightarrow> state \<Rightarrow> pending_delete \<times> state" where
  "delete_begin w addr td s =
     (let storage = getBurnerStorage s in
      case get_property storage addr of
        Undefined \<Rightarrow> (Threw (Error ''burner not found''), s)
      | _ \<Rightarrow>
          (case get addr s of
             Inl e \<Rightarrow> (Caught, s)
           | Inr burner \<Rightarrow>
               (Draining storage addr
                  (emptyAccount w (now s) (address (this_masterAccount s)) burner
                     (this_feeTokenAddress s) td),
                emit (EmptyAccount (address (this_masterAccount s)) burner
                        (this_feeTokenAddress s) td) s)))"

definition delete_finish :: "pending_delete \<Rightarrow> state \<Rightarrow> unit result" where
  "delete_finish p s =
     (case p of
        Threw e \<Rightarrow> (Inl e, s)
      | Caught \<Rightarrow> (Inr (), s)
      | Draining storage addr drained \<Rightarrow>
          (case drained of
             Inl _ \<Rightarrow> (Inr (), s)
           | Inr _ \<Rightarrow>
               (let storage1 = DAList.delete addr storage;
                    s1 = Storage_set (getBurnerKey s) storage1 s
                in case keys storage1 of
                     [] \<Rightarrow> (Inr (), s1\<lparr>this_account := None\<rparr>)
                   | first # _ \<Rightarrow> select first s1)))"

text \<open>\<^verbatim>\<open>delete\<close> when nothing else runs while it waits for the drain.\<close>

definition delete :: "env \<Rightarrow> string \<Rightarrow> InvocationsDetails option \<Rightarrow> state \<Rightarrow> unit result" where
  "delete w addr td s = (case delete_begin w addr td s of (p, s1) \<Rightarrow> delete_finish p s1)"

text \<open>
  \<^verbatim>\<open>clear\<close> starts one \<^verbatim>\<open>delete\<close> per address (\<open>begin_all\<close>: each runs up to its
  \<^verbatim>\<open>await\<close>), waits for all of them with \<^verbatim>\<open>Promise.all\<close>, then removes the key. The
  drains answer in an order the code does not control: \<open>completion_order\<close> builds it from
  a list of choices, each picking one of the promises still pending; the promises left when
  the choices run out settle in the order they were started. \<open>settle_all\<close> runs the
  continuations in that order and stops at the first rejection, which is when
  \<^verbatim>\<open>Promise.all\<close> rejects.
\<close>

fun begin_all ::
  "env \<Rightarrow> InvocationsDetails option \<Rightarrow> string list \<Rightarrow> state \<Rightarrow> pending_delete list \<times> state" where
  "begin_all w td [] s = ([], s)"
| "begin_all w td (addr # addrs) s =
     (case delete_begin w addr td s of
        (p, s1) \<Rightarrow> (case begin_all w td addrs s1 of (ps, s2) \<Rightarrow> (p # ps, s2)))"

fun completion_order :: "nat list \<Rightarrow> 'a list \<Rightarrow> 'a list" where
  "completion_order choices [] = []"
| "completion_order [] ps = ps"
| "completion_order (c # choices) ps =
     (let i = c mod length ps
      in ps ! i # completion_order choices (take i ps @ drop (Suc i) ps))"

fun settle_all :: "pending_delete list \<Rightarrow> state \<Rightarrow> unit result" where
  "settle_all [] s = (Inr (), s)"
| "settle_all (p # ps) s =
     (case delete_finish p s of
        (Inl e, s1) \<Rightarrow> (Inl e, s1)
      | (Inr _, s1) \<Rightarrow> settle_all ps s1)"

definition clear_begin ::
  "env \<Rightarrow> InvocationsDetails option \<Rightarrow> state \<Rightarrow> pending_delete list \<times> state" where
  "clear_begin w td s = begin_all w td (keys (getBurnerStorage s)) s"

definition clear_finish :: "nat list \<Rightarrow> pending_delete list \<Rightarrow> state \<Rightarrow> unit result" where
  "clear_finish choices ps s =
     (case settle_all (completion_order choices ps) s of
        (Inl e, s1) \<Rightarrow> (Inl e, s1)
      | (Inr _, s1) \<Rightarrow> (Inr (), Storage_remove (getBurnerKey s1) s1))"

definition clear :: "env \<Rightarrow> InvocationsDetails option \<Rightarrow> nat list \<Rightarrow> state \<Rightarrow> unit result" where
  "clear w td choices s = (case clear_begin w td s of (ps, s1) \<Rightarrow> clear_finish choices ps s1)"

subsection \<open>Initialisation\<close>

text \<open>
  The receipts are requested in the order of the keys (each callback of
  \<^verbatim>\<open>addresses.map\<close> runs up to its \<^verbatim>\<open>await\<close>); \<open>check_all\<close> returns \<^verbatim>\<open>toRemove\<close>.
\<close>

fun check_all :: "env \<Rightarrow> (string \<times> BurnerEntry) list \<Rightarrow> state \<Rightarrow> string list \<times> state" where
  "check_all w [] s = ([], s)"
| "check_all w ((addr, e) # rest) s =
     (case isBurnerDeployed w (deployTx e) s of
        (isDeployed, s1) \<Rightarrow>
          (case check_all w rest s1 of
             (toRemove, s2) \<Rightarrow> (if isDeployed then toRemove else addr # toRemove, s2)))"

text \<open>
  \<^verbatim>\<open>init\<close>. When no burner is left, \<^verbatim>\<open>this.clear()\<close> is called and not awaited: its
  deletes are started, \<^verbatim>\<open>init\<close> sets the flag and returns, and the clear finishes on its
  own later. The result carries the promises of that clear (\<open>Some ps\<close>), to be completed
  by \<open>clear_finish\<close>; it is \<open>None\<close> when no clear was started.
\<close>

definition init :: "env \<Rightarrow> bool \<Rightarrow> state \<Rightarrow> (pending_delete list option) result" where
  "init w keepNonDeployed s =
     (if this_isInitialized s then (Inl (Error ''BurnerManager is already initialized''), s)
      else
        (case getChainId w (now s) of
           Inl e \<Rightarrow> (Inl (Rejected e), emit GetChainId s)
         | Inr c \<Rightarrow>
             (let s1 = (emit GetChainId s)\<lparr>this_chainId := decodeShortString w c\<rparr>;
                  storage = getBurnerStorage s1
              in case check_all w (entries storage) s1 of
                   (toRemove, s2) \<Rightarrow>
                     (let storage1 =
                            (if keepNonDeployed then storage
                             else fold DAList.delete toRemove storage)
                      in if keys storage1 \<noteq> []
                         then (Inr None,
                               (setActiveBurnerAccount storage1
                                  (Storage_set (getBurnerKey s2) storage1 s2))
                                 \<lparr>this_isInitialized := True\<rparr>)
                         else (case clear_begin w None s2 of
                                 (ps, s3) \<Rightarrow> (Inr (Some ps), s3\<lparr>this_isInitialized := True\<rparr>))))))"

subsection \<open>The clipboard\<close>

text \<open>
  \<^verbatim>\<open>setBurnersFromClipboard\<close>. Its input is what \<^verbatim>\<open>readText\<close> and \<^verbatim>\<open>JSON.parse\<close>
  give: \<open>Inl msg\<close> when either throws, the parsed storage otherwise.
  \<open>first_active\<close> is the loop of lines 468 to 473. The test
  \<^verbatim>\<open>if (activeAddress)\<close> is on a string or \<^verbatim>\<open>null\<close>, so the empty string fails it too.
\<close>

definition first_active :: "BurnerStorage \<Rightarrow> string option" where
  "first_active burners =
     (case find (\<lambda>(addr, burner). active burner) (entries burners) of
        None \<Rightarrow> None
      | Some (addr, burner) \<Rightarrow> Some addr)"

definition setBurnersFromClipboard :: "string + BurnerStorage \<Rightarrow> state \<Rightarrow> unit result" where
  "setBurnersFromClipboard clipboard s =
     (case clipboard of
        Inl e \<Rightarrow> (Inl (Rejected e), s)
      | Inr burners \<Rightarrow>
          (let activeAddress = first_active burners;
               s1 = Storage_set (getBurnerKey s) burners s
           in if truthy activeAddress
              then (case activeAddress of None \<Rightarrow> (Inr (), s1) | Some addr \<Rightarrow> select addr s1)
              else (Inr (), s1)))"

section \<open>Sequences of operations\<close>

text \<open>
  The public operations as commands, to speak about what holds after any sequence of
  them. \<open>Resume p\<close> is the continuation of a delete that was started earlier and
  \<open>RemoveKey\<close> the last statement of \<^verbatim>\<open>clear\<close>: with them a clear that \<^verbatim>\<open>init\<close>
  started and did not await can finish at any later moment, between other operations.
\<close>

datatype command =
    Init bool
  | Create "BurnerCreateOptions option"
  | Select string
  | Deselect
  | Delete string "InvocationsDetails option"
  | Clear "InvocationsDetails option" "nat list"
  | SetBurnersFromClipboard "string + BurnerStorage"
  | Resume pending_delete
  | RemoveKey

fun is_Init :: "command \<Rightarrow> bool" where
  "is_Init (Init k) = True"
| "is_Init c = False"

fun exec :: "env \<Rightarrow> command \<Rightarrow> state \<Rightarrow> state" where
  "exec w (Init keepNonDeployed) s = snd (init w keepNonDeployed s)"
| "exec w (Create options) s = snd (create w options s)"
| "exec w (Select addr) s = snd (select addr s)"
| "exec w Deselect s = deselect s"
| "exec w (Delete addr td) s = snd (delete w addr td s)"
| "exec w (Clear td choices) s = snd (clear w td choices s)"
| "exec w (SetBurnersFromClipboard clipboard) s = snd (setBurnersFromClipboard clipboard s)"
| "exec w (Resume p) s = snd (delete_finish p s)"
| "exec w RemoveKey s = Storage_remove (getBurnerKey s) s"

definition run :: "env \<Rightarrow> command list \<Rightarrow> state \<Rightarrow> state" where
  "run w cmds s = fold (exec w) cmds s"

section \<open>The active burner\<close>

definition active_addresses :: "BurnerStorage \<Rightarrow> string list" where
  "active_addresses storage = map fst (filter (\<lambda>(addr, e). active e) (entries storage))"

definition at_most_one_active :: "BurnerStorage \<Rightarrow> bool" where
  "at_most_one_active storage = (length (active_addresses storage) \<le> 1)"

text \<open>
  The invariant on local storage: under every key, at most one burner is marked active.
  \<open>clipboard_ok\<close> holds of every command but a paste whose first active burner has the
  empty string as its address while the pasted storage has several active burners.
\<close>

definition storage_inv :: "state \<Rightarrow> bool" where
  "storage_inv s = (\<forall>key storage. localStorage s key = Some storage \<longrightarrow> at_most_one_active storage)"

fun clipboard_ok :: "command \<Rightarrow> bool" where
  "clipboard_ok (SetBurnersFromClipboard (Inr burners)) =
     (first_active burners \<noteq> Some [] \<or> at_most_one_active burners)"
| "clipboard_ok c = True"

section \<open>SDK functions and repository functions\<close>



section \<open>Example states\<close>

definition example_entry :: "string \<Rightarrow> string \<Rightarrow> bool \<Rightarrow> BurnerEntry" where
  "example_entry pk master act =
     \<lparr>chainId = ''KATANA'', privateKey = pk, publicKey = ''0xb0'', deployTx = ''0xd0'',
      masterAccount = master, active = act, accountIndex = None, metadata = None\<rparr>"

definition example_storage :: BurnerStorage where
  "example_storage =
     DAList.update ''0x3'' (example_entry ''0xc3'' ''0xbb'' False)
       (DAList.update ''0x2'' (example_entry ''0xc2'' ''0xaa'' False)
          (DAList.update ''0x1'' (example_entry ''0xc1'' ''0xaa'' True) DAList.empty))"

definition example_state :: state where
  "example_state =
     (constructor \<lparr>address = ''0xaa'', signer = Some ''0xa0''\<rparr> ''0xc0'' ''0xfe''
        [''burners_KATANA'' \<mapsto> example_storage])
       \<lparr>this_chainId := ''KATANA'', this_isInitialized := True\<rparr>"

text \<open>A manager just constructed, over a local storage that already holds burners.\<close>

definition fresh_state :: state where
  "fresh_state =
     constructor \<lparr>address = ''0xaa'', signer = Some ''0xa0''\<rparr> ''0xc0'' ''0xfe''
       [''burners_KATANA'' \<mapsto> example_storage]"

text \<open>An outside world in which every call succeeds.\<close>

definition example_env :: env where
  "example_env =
     \<lparr>getChainId = (\<lambda>t. Inr ''0x4b4154414e41''),
      decodeShortString = (\<lambda>c. ''KATANA''),
      getNonce = (\<lambda>t a. Inr ''0x5''),
      execute = (\<lambda>t a cs d. Inr ''0xe1''),
      waitForTransaction = (\<lambda>t h. Inr (Some ''receipt'')),
      deployAccount = (\<lambda>t b p d. Inr ''0xd9''),
      getTransactionReceipt = (\<lambda>t h. Inr (Some ''receipt'')),
      randomAddress = (\<lambda>t. ''0xc9''),
      getStarkKey = (\<lambda>k. ''0xb9''),
      calculateContractAddressFromHash = (\<lambda>salt h cd deployer. ''0x9''),
      compile = (\<lambda>xs. xs),
      emptyAccount = (\<lambda>t m b f d. Inr ()),
      derivePrivateKeyFromSeed = (\<lambda>sec i. ''0xc8'')\<rparr>"

text \<open>The same world, but every drain is refused.\<close>

definition drain_fails_env :: env where
  "drain_fails_env = example_env\<lparr>emptyAccount := (\<lambda>t m b f d. Inl ''drain failed'')\<rparr>"

text \<open>The same world, but no nonce can be read.\<close>

definition prefund_fails_env :: env where
  "prefund_fails_env = example_env\<lparr>getNonce := (\<lambda>t a. Inl ''nonce unavailable'')\<rparr>"



text \<open>A pasted storage with two active burners, the first under the empty address.\<close>

definition bad_clipboard :: BurnerStorage where
  "bad_clipboard =
     DAList.update ''0x2'' (example_entry ''0xc2'' ''0xaa'' True)
       (DAList.update [] (example_entry ''0xc1'' ''0xaa'' True) DAList.empty)"

section \<open>Auxiliary notions\<close>

text \<open>
  \<open>frame s s'\<close>: from \<open>s\<close> to \<open>s'\<close> only the deploying flag may have changed and
  the trace may have grown.
\<close>

definition frame :: "state \<Rightarrow> state \<Rightarrow> bool" where
  "frame s s' =
     (this_masterAccount s' = this_masterAccount s \<and>
      this_accountClassHash s' = this_accountClassHash s \<and>
      this_feeTokenAddress s' = this_feeTokenAddress s \<and>
      this_chainId s' = this_chainId s \<and>
      this_account s' = this_account s \<and>
      this_isInitialized s' = this_isInitialized s \<and>
      this_setIsDeploying s' = this_setIsDeploying s \<and>
      this_afterDeploying s' = this_afterDeploying s \<and>
      localStorage s' = localStorage s \<and>
      take (length (calls s)) (calls s') = calls s)"

text \<open>The storage a finished delete leaves, when the drain succeeded.\<close>

definition after_delete :: "string \<Rightarrow> BurnerStorage \<Rightarrow> BurnerStorage" where
  "after_delete addr storage =
     (case keys (DAList.delete addr storage) of
        [] \<Rightarrow> DAList.delete addr storage
      | first # _ \<Rightarrow>
          DAList.map_entry first (\<lambda>e. e\<lparr>active := True\<rparr>)
            (deactivate_all (DAList.delete addr storage)))"

section \<open>Lemmas on storage objects\<close>

lemma keys_deactivate_all [simp]: "keys (deactivate_all st) = keys st"
  by (simp add: keys_def deactivate_all.rep_eq comp_def case_prod_beta)

lemma lookup_deactivate_all [simp]:
  "DAList.lookup (deactivate_all st) a =
     map_option (\<lambda>e. e\<lparr>active := False\<rparr>) (DAList.lookup st a)"
proof -
  have "map_of (map (\<lambda>(addr, e). (addr, e\<lparr>active := False\<rparr>)) xs) a
        = map_option (\<lambda>e. e\<lparr>active := False\<rparr>) (map_of xs a)"
    for xs :: "(string \<times> BurnerEntry) list"
    by (induction xs) auto
  then show ?thesis
    by (simp add: DAList.lookup.rep_eq deactivate_all.rep_eq)
qed

lemma keys_map_entry [simp]: "keys (DAList.map_entry a f st) = keys st"
proof -
  have "map fst (AList.map_entry a f xs) = map fst xs"
    for xs :: "(string \<times> BurnerEntry) list"
    by (induction xs) auto
  then show ?thesis
    by (simp add: keys_def DAList.map_entry.rep_eq)
qed

lemma lookup_map_entry [simp]:
  "DAList.lookup (DAList.map_entry a f st) b =
     (if b = a then map_option f (DAList.lookup st b) else DAList.lookup st b)"
  by (simp add: DAList.lookup.rep_eq DAList.map_entry.rep_eq map_of_map_entry
      split: option.split)

lemma keys_lookup: "a \<in> set (keys st) \<longleftrightarrow> DAList.lookup st a \<noteq> None"
  by (simp add: keys_def DAList.lookup.rep_eq map_of_eq_None_iff)

lemma getBurnerStorage_Storage_set [simp]:
  "getBurnerStorage (Storage_set (getBurnerKey s) st s) = st"
  by (simp add: getBurnerStorage_def Storage_set_def Storage_get_def getBurnerKey_def)

lemma getBurnerStorage_example [simp]: "getBurnerStorage example_state = example_storage"
  by (simp add: getBurnerStorage_def Storage_get_def getBurnerKey_def example_state_def
      constructor_def)

section \<open>Selecting a burner\<close>

lemma get_property_own [simp]:
  "DAList.lookup st a = Some e \<Longrightarrow> get_property st a = Own e"
  by (simp add: get_property_def)

lemma get_property_Undefined:
  "get_property st a = Undefined \<longleftrightarrow> DAList.lookup st a = None \<and> a \<notin> set Object_prototype"
  by (simp add: get_property_def split: option.split)

lemma get_property_Inherited:
  "get_property st a = Inherited \<longleftrightarrow> DAList.lookup st a = None \<and> a \<in> set Object_prototype"
  by (simp add: get_property_def split: option.split)

lemma get_property_Own:
  "get_property st a = Own e \<longleftrightarrow> DAList.lookup st a = Some e"
  by (simp add: get_property_def split: option.split)

text \<open>
  What \<open>select\<close> does, by what the guard reads. On a stored address it returns
  normally; the storage it leaves under the burner key has the same keys in the same
  order, every entry unchanged but for its flag, which is set exactly at the selected
  address; that storage is what local storage now holds; the manager's account is the
  account of the selected address with its stored private key, and nothing else of the
  state is changed. On a name that is neither stored nor inherited it throws
  \<open>burner not found\<close> and the state is what it was. On an inherited name it returns
  normally, persists the storage with every flag cleared and sets the account.
\<close>

lemma select_cases:
  "case get_property (getBurnerStorage s) addr of
     Undefined \<Rightarrow> select addr s = (Inl (Error ''burner not found''), s)
   | Inherited \<Rightarrow>
       select addr s =
         (Inr (),
          (Storage_set (getBurnerKey s) (deactivate_all (getBurnerStorage s)) s)
            \<lparr>this_account := Some \<lparr>address = addr, signer = None\<rparr>\<rparr>)
   | Own e \<Rightarrow>
       (\<exists>s'. select addr s = (Inr (), s') \<and>
          keys (getBurnerStorage s') = keys (getBurnerStorage s) \<and>
          (\<forall>a. DAList.lookup (getBurnerStorage s') a =
                 map_option (\<lambda>e. e\<lparr>active := (a = addr)\<rparr>)
                   (DAList.lookup (getBurnerStorage s) a)) \<and>
          localStorage s' = (localStorage s)(getBurnerKey s \<mapsto> getBurnerStorage s') \<and>
          this_account s' = Some \<lparr>address = addr, signer = Some (privateKey e)\<rparr> \<and>
          s' = s\<lparr>localStorage := localStorage s', this_account := this_account s'\<rparr>)"
proof (cases "get_property (getBurnerStorage s) addr")
  case Undefined
  then show ?thesis by (simp add: select_def)
next
  case Inherited
  then show ?thesis by (simp add: select_def Let_def)
next
  case (Own e)
  then have look0: "DAList.lookup (getBurnerStorage s) addr = Some e"
    by (simp add: get_property_Own)
  let ?st2 = "DAList.map_entry addr (\<lambda>e. e\<lparr>active := True\<rparr>)
                (deactivate_all (getBurnerStorage s))"
  let ?s1 = "Storage_set (getBurnerKey s) ?st2 s"
  let ?s' = "?s1\<lparr>this_account := Some \<lparr>address = addr, signer = Some (privateKey e)\<rparr>\<rparr>"
  have st: "getBurnerStorage ?s' = ?st2"
    by (simp add: getBurnerStorage_def Storage_set_def Storage_get_def getBurnerKey_def)
  have returns: "select addr s = (Inr (), ?s')"
    using Own look0 by (simp add: select_def Let_def)
  have look: "DAList.lookup ?st2 a =
      map_option (\<lambda>e. e\<lparr>active := (a = addr)\<rparr>) (DAList.lookup (getBurnerStorage s) a)"
    for a
    by (cases "DAList.lookup (getBurnerStorage s) a") auto
  have ls: "localStorage ?s' = (localStorage s)(getBurnerKey s \<mapsto> ?st2)"
    by (simp add: Storage_set_def)
  have frame: "?s' = s\<lparr>localStorage := localStorage ?s', this_account := this_account ?s'\<rparr>"
    by (simp add: Storage_set_def)
  show ?thesis
    using Own returns st look ls frame
    by (simp del: lookup_map_entry lookup_deactivate_all)
qed

lemma select_cases_example:
  "(\<exists>s'. select ''0x2'' example_state = (Inr (), s') \<and>
      keys (getBurnerStorage s') = keys example_storage \<and>
      (\<forall>a. DAList.lookup (getBurnerStorage s') a =
             map_option (\<lambda>e. e\<lparr>active := (a = ''0x2'')\<rparr>) (DAList.lookup example_storage a)) \<and>
      this_account s' = Some \<lparr>address = ''0x2'', signer = Some ''0xc2''\<rparr>) \<and>
   select ''0x7'' example_state = (Inl (Error ''burner not found''), example_state)"
proof -
  have present: "get_property (getBurnerStorage example_state) ''0x2'' =
      Own (example_entry ''0xc2'' ''0xaa'' False)"
    by (simp add: example_storage_def)
  have absent: "get_property (getBurnerStorage example_state) ''0x7'' = Undefined"
    by (simp add: example_storage_def get_property_def Object_prototype_def)
  from select_cases [where s = example_state and addr = "''0x2''"] present
  have a: "\<exists>s'. select ''0x2'' example_state = (Inr (), s') \<and>
      keys (getBurnerStorage s') = keys example_storage \<and>
      (\<forall>a. DAList.lookup (getBurnerStorage s') a =
             map_option (\<lambda>e. e\<lparr>active := (a = ''0x2'')\<rparr>) (DAList.lookup example_storage a)) \<and>
      this_account s' = Some \<lparr>address = ''0x2'', signer = Some ''0xc2''\<rparr>"
    by (auto simp add: example_entry_def)
  from select_cases [where s = example_state and addr = "''0x7''"] absent
  have b: "select ''0x7'' example_state = (Inl (Error ''burner not found''), example_state)"
    by simp
  from a b show ?thesis by blast
qed

section \<open>Listing the burners\<close>

lemma scan_distinct:
  fixes xs :: "(string \<times> BurnerEntry) list"
  assumes "distinct (map fst xs)"
  shows "filter (\<lambda>b. burner_address b = a)
           (filter (\<lambda>burner. burner_masterAccount burner = m)
              (map (\<lambda>(addr, e). \<lparr>burner_address = addr, burner_active = active e,
                                 burner_masterAccount = masterAccount e,
                                 burner_accountIndex = accountIndex e\<rparr>) xs)) =
         (case map_of xs a of
            None \<Rightarrow> []
          | Some e \<Rightarrow>
              if masterAccount e = m
              then [\<lparr>burner_address = a, burner_active = active e,
                     burner_masterAccount = masterAccount e,
                     burner_accountIndex = accountIndex e\<rparr>]
              else [])"
  using assms
proof (induction xs)
  case Nil
  then show ?case by simp
next
  case (Cons x xs)
  obtain k v where x: "x = (k, v)" by (cases x)
  show ?case
  proof (cases "k = a")
    case True
    with Cons.prems x have "map_of xs a = None"
      by (simp add: map_of_eq_None_iff)
    with Cons x True show ?thesis by simp
  next
    case False
    with Cons x show ?thesis by simp
  qed
qed

lemma scan_addresses:
  fixes xs :: "(string \<times> BurnerEntry) list"
  assumes "distinct (map fst xs)"
  shows "map burner_address
           (filter (\<lambda>burner. burner_masterAccount burner = m)
              (map (\<lambda>(addr, e). \<lparr>burner_address = addr, burner_active = active e,
                                 burner_masterAccount = masterAccount e,
                                 burner_accountIndex = accountIndex e\<rparr>) xs)) =
         filter (\<lambda>addr. case map_of xs addr of None \<Rightarrow> False | Some e \<Rightarrow> masterAccount e = m)
           (map fst xs)"
  using assms
proof (induction xs)
  case Nil
  then show ?case by simp
next
  case (Cons x xs)
  obtain k v where x: "x = (k, v)" by (cases x)
  from Cons.prems x have notin: "k \<notin> fst ` set xs" and d: "distinct (map fst xs)"
    by auto
  have "filter (\<lambda>addr. case map_of (x # xs) addr of None \<Rightarrow> False
                       | Some e \<Rightarrow> masterAccount e = m) (map fst xs)
      = filter (\<lambda>addr. case map_of xs addr of None \<Rightarrow> False
                       | Some e \<Rightarrow> masterAccount e = m) (map fst xs)"
    using notin x by (intro filter_cong) auto
  with Cons.IH [OF d] x show ?case by simp
qed

text \<open>
  Claim C5. Seen from any address \<open>a\<close>, the result of \<open>list\<close> holds exactly one entry
  with that address when \<open>a\<close> is stored with the current master account's address as its
  recorded master, and that entry carries the burner's address, flag, master and account
  index; it holds no entry with that address when \<open>a\<close> is not stored or is recorded under
  another master. The addresses listed are the stored keys in their order, filtered by
  that one test.
\<close>

theorem list_spec:
  "filter (\<lambda>b. burner_address b = a) (list s) =
     (case DAList.lookup (getBurnerStorage s) a of
        None \<Rightarrow> []
      | Some e \<Rightarrow>
          if masterAccount e = address (this_masterAccount s)
          then [\<lparr>burner_address = a, burner_active = active e,
                 burner_masterAccount = masterAccount e, burner_accountIndex = accountIndex e\<rparr>]
          else []) \<and>
   map burner_address (list s) =
     filter (\<lambda>addr. case DAList.lookup (getBurnerStorage s) addr of
                      None \<Rightarrow> False
                    | Some e \<Rightarrow> masterAccount e = address (this_masterAccount s))
       (keys (getBurnerStorage s))"
  unfolding list_def entries_def keys_def DAList.lookup.rep_eq
  using scan_distinct [OF DAList.impl_of_distinct, of a "address (this_masterAccount s)"
      "getBurnerStorage s"]
    scan_addresses [OF DAList.impl_of_distinct, of "address (this_masterAccount s)"
      "getBurnerStorage s"]
  by blast

section \<open>Deleting a burner\<close>

lemma this_isInitialized_emit [simp]: "this_isInitialized (emit ev s) = this_isInitialized s"
  by (simp add: emit_def)

lemma this_chainId_emit [simp]: "this_chainId (emit ev s) = this_chainId s"
  by (simp add: emit_def)

lemma getBurnerKey_emit [simp]: "getBurnerKey (emit ev s) = getBurnerKey s"
  by (simp add: getBurnerKey_def emit_def)

lemma getBurnerStorage_emit [simp]: "getBurnerStorage (emit ev s) = getBurnerStorage s"
  by (simp add: getBurnerStorage_def Storage_get_def getBurnerKey_def emit_def)

lemma localStorage_emit [simp]: "localStorage (emit ev s) = localStorage s"
  by (simp add: emit_def)

lemma calls_emit [simp]: "calls (emit ev s) = calls s @ [ev]"
  by (simp add: emit_def)

lemma keys_delete [simp]: "keys (DAList.delete a st) = removeAll a (keys st)"
  by (simp add: keys_def DAList.delete.rep_eq delete_keys)

lemma select_present:
  assumes "DAList.lookup (getBurnerStorage s) addr = Some e"
  shows "select addr s =
           (Inr (),
            (Storage_set (getBurnerKey s)
               (DAList.map_entry addr (\<lambda>e. e\<lparr>active := True\<rparr>)
                  (deactivate_all (getBurnerStorage s))) s)
              \<lparr>this_account := Some \<lparr>address = addr, signer = Some (privateKey e)\<rparr>\<rparr>)"
  using assms by (simp add: select_def Let_def)

lemma getBurnerStorage_account [simp]:
  "getBurnerStorage (s\<lparr>this_account := a\<rparr>) = getBurnerStorage s"
  by (simp add: getBurnerStorage_def Storage_get_def getBurnerKey_def)

lemma get_passes:
  "get_property (getBurnerStorage s) addr \<noteq> Undefined \<Longrightarrow>
     get addr s =
       Inr \<lparr>address = addr, signer = map_option privateKey (DAList.lookup (getBurnerStorage s) addr)\<rparr>"
  by (simp add: get_def get_property_def split: option.splits if_splits)

lemma delete_begin_passes:
  assumes "get_property (getBurnerStorage s) addr \<noteq> Undefined"
  shows "delete_begin w addr td s =
           (Draining (getBurnerStorage s) addr
              (emptyAccount w (now s) (address (this_masterAccount s))
                 \<lparr>address = addr,
                  signer = map_option privateKey (DAList.lookup (getBurnerStorage s) addr)\<rparr>
                 (this_feeTokenAddress s) td),
            emit (EmptyAccount (address (this_masterAccount s))
                    \<lparr>address = addr,
                     signer = map_option privateKey (DAList.lookup (getBurnerStorage s) addr)\<rparr>
                    (this_feeTokenAddress s) td) s)"
  using assms get_passes [OF assms]
  by (cases "get_property (getBurnerStorage s) addr") (simp_all add: delete_begin_def Let_def)

lemma delete_finish_drained:
  "\<exists>s'. delete_finish (Draining st addr (Inr u)) s = (Inr (), s') \<and>
        localStorage s' = (localStorage s)(getBurnerKey s \<mapsto> after_delete addr st) \<and>
        getBurnerKey s' = getBurnerKey s \<and> calls s' = calls s \<and>
        this_isInitialized s' = this_isInitialized s"
proof (cases "keys (DAList.delete addr st)")
  case Nil
  then show ?thesis
    by (simp add: delete_finish_def Let_def after_delete_def Storage_set_def getBurnerKey_def)
next
  case (Cons first rest)
  let ?s1 = "Storage_set (getBurnerKey s) (DAList.delete addr st) s"
  have "first \<in> set (keys (DAList.delete addr st))"
    using Cons by simp
  then obtain e where e: "DAList.lookup (getBurnerStorage ?s1) first = Some e"
    by (auto simp add: keys_lookup simp del: keys_delete)
  have k: "getBurnerKey ?s1 = getBurnerKey s"
    by (simp add: getBurnerKey_def Storage_set_def)
  show ?thesis
    using Cons select_present [OF e] k
    by (simp add: delete_finish_def Let_def after_delete_def del: keys_delete)
       (simp add: Storage_set_def getBurnerKey_def)
qed

lemma delete_finish_failed:
  "delete_finish (Draining st addr (Inl err)) s = (Inr (), s)"
  by (simp add: delete_finish_def)


lemma lookup_after_delete:
  "map_option (\<lambda>e. e\<lparr>active := False\<rparr>) (DAList.lookup (after_delete addr st) a) =
   map_option (\<lambda>e. e\<lparr>active := False\<rparr>) (((DAList.lookup st)(addr := None)) a)"
  by (cases "keys (DAList.delete addr st)")
     (auto simp add: after_delete_def option.map_comp comp_def simp del: keys_delete)

lemma lookup_after_delete_same [simp]: "DAList.lookup (after_delete addr st) addr = None"
  by (cases "keys (DAList.delete addr st)")
     (auto simp add: after_delete_def simp del: keys_delete)

lemma keys_after_delete [simp]: "keys (after_delete addr st) = removeAll addr (keys st)"
  by (cases "keys (DAList.delete addr st)")
     (auto simp add: after_delete_def simp del: keys_delete, simp_all)

text \<open>
  What \<open>delete\<close> does. On a name that is neither stored nor inherited it throws
  \<open>burner not found\<close> and changes nothing. Otherwise the drain is requested first (it
  is the one call \<open>delete\<close> adds to the trace), for the account \<open>get\<close> returns. When
  the drain throws, \<open>delete\<close> returns normally and the state differs from the one before
  in the trace only: local storage is unchanged. When the drain succeeds, \<open>delete\<close>
  returns normally, the storage it persists under the burner key does not have the
  address, keeps the other keys in their order, and keeps the other entries up to their
  flags (one of them is then selected).
\<close>

lemma delete_cases:
  "if get_property (getBurnerStorage s) addr = Undefined
   then delete w addr td s = (Inl (Error ''burner not found''), s)
   else
     (let burner = \<lparr>address = addr,
                    signer = map_option privateKey (DAList.lookup (getBurnerStorage s) addr)\<rparr>;
          drain = EmptyAccount (address (this_masterAccount s)) burner
                    (this_feeTokenAddress s) td
      in case emptyAccount w (now s) (address (this_masterAccount s)) burner
                (this_feeTokenAddress s) td of
           Inl err \<Rightarrow> delete w addr td s = (Inr (), s\<lparr>calls := calls s @ [drain]\<rparr>)
         | Inr u \<Rightarrow>
             (\<exists>s'. delete w addr td s = (Inr (), s') \<and>
                calls s' = calls s @ [drain] \<and>
                localStorage s' = (localStorage s)(getBurnerKey s \<mapsto> getBurnerStorage s') \<and>
                DAList.lookup (getBurnerStorage s') addr = None \<and>
                keys (getBurnerStorage s') = removeAll addr (keys (getBurnerStorage s)) \<and>
                (\<forall>a. map_option (\<lambda>e. e\<lparr>active := False\<rparr>)
                        (DAList.lookup (getBurnerStorage s') a) =
                      map_option (\<lambda>e. e\<lparr>active := False\<rparr>)
                        (((DAList.lookup (getBurnerStorage s))(addr := None)) a))))"
proof (cases "get_property (getBurnerStorage s) addr = Undefined")
  case True
  then show ?thesis by (simp add: delete_def delete_begin_def delete_finish_def)
next
  case False
  let ?burner = "\<lparr>address = addr,
                  signer = map_option privateKey (DAList.lookup (getBurnerStorage s) addr)\<rparr>"
  let ?drain = "EmptyAccount (address (this_masterAccount s)) ?burner (this_feeTokenAddress s) td"
  let ?out = "emptyAccount w (now s) (address (this_masterAccount s)) ?burner
                (this_feeTokenAddress s) td"
  have start: "delete w addr td s =
      delete_finish (Draining (getBurnerStorage s) addr ?out) (emit ?drain s)"
    by (simp add: delete_def delete_begin_passes [OF False])
  show ?thesis
  proof (cases ?out)
    case (Inl err)
    with False start show ?thesis
      by (simp add: delete_finish_failed emit_def)
  next
    case (Inr u)
    from delete_finish_drained [of "getBurnerStorage s" addr u "emit ?drain s"]
    obtain s' where s': "delete_finish (Draining (getBurnerStorage s) addr (Inr u)) (emit ?drain s)
          = (Inr (), s')"
      and ls: "localStorage s' = (localStorage s)(getBurnerKey s \<mapsto> after_delete addr (getBurnerStorage s))"
      and k: "getBurnerKey s' = getBurnerKey s" and c: "calls s' = calls s @ [?drain]"
      by auto
    have st: "getBurnerStorage s' = after_delete addr (getBurnerStorage s)"
      using ls k by (simp add: getBurnerStorage_def Storage_get_def)
    show ?thesis
      using False Inr start s' ls c st lookup_after_delete [of addr "getBurnerStorage s"]
      by simp
  qed
qed

lemma delete_cases_example:
  "(\<exists>s'. delete example_env ''0x1'' None example_state = (Inr (), s') \<and>
      calls s' =
        [EmptyAccount ''0xaa'' \<lparr>address = ''0x1'', signer = Some ''0xc1''\<rparr> ''0xfe'' None] \<and>
      DAList.lookup (getBurnerStorage s') ''0x1'' = None \<and>
      keys (getBurnerStorage s') = [''0x2'', ''0x3'']) \<and>
   delete drain_fails_env ''0x1'' None example_state =
     (Inr (), example_state\<lparr>calls :=
        [EmptyAccount ''0xaa'' \<lparr>address = ''0x1'', signer = Some ''0xc1''\<rparr> ''0xfe'' None]\<rparr>) \<and>
   delete example_env ''0x7'' None example_state =
     (Inl (Error ''burner not found''), example_state)"
proof -
  have present: "DAList.lookup (getBurnerStorage example_state) ''0x1'' =
      Some (example_entry ''0xc1'' ''0xaa'' True)"
    by (simp add: example_storage_def)
  then have passes: "get_property (getBurnerStorage example_state) ''0x1'' \<noteq> Undefined"
    by (simp add: get_property_def)
  have absent: "get_property (getBurnerStorage example_state) ''0x7'' = Undefined"
    by (simp add: example_storage_def get_property_def Object_prototype_def)
  have fields: "address (this_masterAccount example_state) = ''0xaa''"
    "this_feeTokenAddress example_state = ''0xfe''" "calls example_state = []"
    by (simp_all add: example_state_def constructor_def)
  have ks: "keys example_storage = [''0x1'', ''0x2'', ''0x3'']"
    by (simp add: keys_def example_storage_def DAList.update.rep_eq DAList.empty.rep_eq)
  from delete_cases [where s = example_state and addr = "''0x1''" and w = example_env
      and td = None] present passes fields ks
  have a: "\<exists>s'. delete example_env ''0x1'' None example_state = (Inr (), s') \<and>
      calls s' =
        [EmptyAccount ''0xaa'' \<lparr>address = ''0x1'', signer = Some ''0xc1''\<rparr> ''0xfe'' None] \<and>
      DAList.lookup (getBurnerStorage s') ''0x1'' = None \<and>
      keys (getBurnerStorage s') = [''0x2'', ''0x3'']"
    by (auto simp add: example_entry_def example_env_def)
  from delete_cases [where s = example_state and addr = "''0x1''" and w = drain_fails_env
      and td = None] present passes fields
  have b: "delete drain_fails_env ''0x1'' None example_state =
     (Inr (), example_state\<lparr>calls :=
        [EmptyAccount ''0xaa'' \<lparr>address = ''0x1'', signer = Some ''0xc1''\<rparr> ''0xfe'' None]\<rparr>)"
    by (simp add: example_entry_def example_env_def drain_fails_env_def)
  from delete_cases [where s = example_state and addr = "''0x7''" and w = example_env
      and td = None] absent
  have c: "delete example_env ''0x7'' None example_state =
     (Inl (Error ''burner not found''), example_state)"
    by simp
  from a b c show ?thesis by blast
qed

section \<open>Clearing the storage\<close>

lemma delete_begin_frame:
  "delete_begin w addr td s = (p, s1) \<Longrightarrow>
     localStorage s1 = localStorage s \<and> getBurnerKey s1 = getBurnerKey s \<and>
     getBurnerStorage s1 = getBurnerStorage s \<and>
     this_isInitialized s1 = this_isInitialized s \<and> this_chainId s1 = this_chainId s"
  by (auto simp add: delete_begin_def Let_def split: property.splits sum.splits)

lemma delete_begin_no_Threw:
  "DAList.lookup (getBurnerStorage s) addr \<noteq> None \<Longrightarrow>
     delete_begin w addr td s = (p, s1) \<Longrightarrow> p \<noteq> Threw err"
  by (auto simp add: delete_begin_def Let_def get_def get_property_def
      split: option.splits property.splits)

lemma begin_all_present:
  "set addrs \<subseteq> set (keys (getBurnerStorage s)) \<Longrightarrow> begin_all w td addrs s = (ps, s1) \<Longrightarrow>
     (\<forall>p \<in> set ps. \<forall>err. p \<noteq> Threw err) \<and> getBurnerKey s1 = getBurnerKey s \<and>
     localStorage s1 = localStorage s"
proof (induction addrs arbitrary: s ps s1)
  case Nil
  then show ?case by simp
next
  case (Cons addr addrs)
  obtain p s2 where b: "delete_begin w addr td s = (p, s2)"
    by (cases "delete_begin w addr td s")
  obtain ps' s3 where r: "begin_all w td addrs s2 = (ps', s3)"
    by (cases "begin_all w td addrs s2")
  from Cons.prems(2) b r have eq: "ps = p # ps'" "s1 = s3" by simp_all
  note fr = delete_begin_frame [OF b]
  from Cons.prems(1) have "DAList.lookup (getBurnerStorage s) addr \<noteq> None"
    by (simp add: keys_lookup)
  then have p: "\<forall>err. p \<noteq> Threw err"
    using delete_begin_no_Threw [OF _ b] by blast
  from Cons.prems(1) fr have "set addrs \<subseteq> set (keys (getBurnerStorage s2))" by simp
  from Cons.IH [OF this r] fr p eq show ?case by simp
qed

lemma delete_finish_returns:
  assumes "\<forall>err. p \<noteq> Threw err"
  shows "\<exists>s'. delete_finish p s = (Inr (), s')"
proof (cases p)
  case (Threw e)
  with assms show ?thesis by simp
next
  case Caught
  then show ?thesis by (simp add: delete_finish_def)
next
  case (Draining st addr out)
  show ?thesis
  proof (cases out)
    case (Inl err)
    with Draining show ?thesis by (simp add: delete_finish_failed)
  next
    case (Inr u)
    with Draining delete_finish_drained [of st addr u s] show ?thesis by auto
  qed
qed

lemma settle_all_returns:
  "\<forall>p \<in> set ps. \<forall>err. p \<noteq> Threw err \<Longrightarrow> \<exists>s'. settle_all ps s = (Inr (), s')"
proof (induction ps arbitrary: s)
  case Nil
  then show ?case by simp
next
  case (Cons p ps)
  then obtain s1 where "delete_finish p s = (Inr (), s1)"
    using delete_finish_returns [of p s] by auto
  with Cons show ?case by simp
qed

lemma completion_order_Nil [simp]: "completion_order [] ps = ps"
  by (cases ps) simp_all

lemma completion_order_step:
  "ps \<noteq> [] \<Longrightarrow>
     completion_order (c # choices) ps =
       ps ! (c mod length ps) #
       completion_order choices (take (c mod length ps) ps @ drop (Suc (c mod length ps)) ps)"
  by (cases ps) (simp_all add: Let_def)

lemma set_completion_order: "set (completion_order choices ps) \<subseteq> set ps"
proof (induction choices arbitrary: ps)
  case Nil
  then show ?case by simp
next
  case (Cons c choices)
  show ?case
  proof (cases "ps = []")
    case True
    then show ?thesis by simp
  next
    case False
    define i where "i = c mod length ps"
    have i: "i < length ps" using False by (simp add: i_def)
    have rest: "set (take i ps @ drop (Suc i) ps) \<subseteq> set ps"
      using set_take_subset [of i ps] set_drop_subset [of "Suc i" ps] by auto
    have here: "ps ! i \<in> set ps" using i by (rule nth_mem)
    have "completion_order (c # choices) ps =
        ps ! i # completion_order choices (take i ps @ drop (Suc i) ps)"
      unfolding i_def by (rule completion_order_step [OF False])
    with Cons.IH [of "take i ps @ drop (Suc i) ps"] rest here show ?thesis
      by auto
  qed
qed

lemma completion_order_all: "set ps \<subseteq> set (completion_order choices ps)"
proof (induction choices arbitrary: ps)
  case Nil
  then show ?case by simp
next
  case (Cons c choices)
  show ?case
  proof (cases "ps = []")
    case True
    then show ?thesis by simp
  next
    case False
    define i where "i = c mod length ps"
    have i: "i < length ps" using False by (simp add: i_def)
    have split: "ps = take i ps @ ps ! i # drop (Suc i) ps"
      using i by (rule id_take_nth_drop)
    have "set ps = insert (ps ! i) (set (take i ps @ drop (Suc i) ps))"
      by (subst split) auto
    moreover have "completion_order (c # choices) ps =
        ps ! i # completion_order choices (take i ps @ drop (Suc i) ps)"
      unfolding i_def by (rule completion_order_step [OF False])
    ultimately show ?thesis
      using Cons.IH [of "take i ps @ drop (Suc i) ps"] by auto
  qed
qed

lemma length_completion_order: "length (completion_order choices ps) = length ps"
proof (induction choices arbitrary: ps)
  case Nil
  then show ?case by simp
next
  case (Cons c choices)
  show ?case
  proof (cases "ps = []")
    case True
    then show ?thesis by simp
  next
    case False
    define i where "i = c mod length ps"
    have i: "i < length ps" using False by (simp add: i_def)
    then have len: "length (take i ps @ drop (Suc i) ps) = length ps - 1" by simp
    have "completion_order (c # choices) ps =
        ps ! i # completion_order choices (take i ps @ drop (Suc i) ps)"
      unfolding i_def by (rule completion_order_step [OF False])
    with Cons.IH [of "take i ps @ drop (Suc i) ps"] len i show ?thesis by simp
  qed
qed

text \<open>
  Claim C6. Whatever the storage, whatever the drains answer (a failed drain included)
  and in whatever order they answer, \<open>clear\<close> returns normally, the burner key of the
  current chain is then absent from local storage, and \<open>list\<close> on the state it leaves
  is empty.
\<close>

theorem clear_spec:
  "\<exists>s'. clear w td choices s = (Inr (), s') \<and>
        Storage_get (getBurnerKey s') s' = None \<and> list s' = []"
proof -
  obtain ps s1 where b: "clear_begin w td s = (ps, s1)"
    by (cases "clear_begin w td s")
  then have "begin_all w td (keys (getBurnerStorage s)) s = (ps, s1)"
    by (simp add: clear_begin_def)
  from begin_all_present [OF _ this] have "\<forall>p \<in> set ps. \<forall>err. p \<noteq> Threw err"
    by simp
  with set_completion_order [of choices ps]
  have "\<forall>p \<in> set (completion_order choices ps). \<forall>err. p \<noteq> Threw err"
    by blast
  from settle_all_returns [OF this]
  obtain s2 where s2: "settle_all (completion_order choices ps) s1 = (Inr (), s2)"
    by blast
  let ?s' = "Storage_remove (getBurnerKey s2) s2"
  have run: "clear w td choices s = (Inr (), ?s')"
    using b s2 by (simp add: clear_def clear_finish_def)
  have gone: "Storage_get (getBurnerKey ?s') ?s' = None"
    by (simp add: Storage_get_def Storage_remove_def getBurnerKey_def)
  then have "getBurnerStorage ?s' = DAList.empty"
    by (simp add: getBurnerStorage_def)
  then have "list ?s' = []"
    by (simp add: list_def entries_def DAList.empty.rep_eq)
  with run gone show ?thesis by blast
qed


theorem clear_spec_witness:
  "\<exists>s'. clear drain_fails_env None [2, 0] example_state = (Inr (), s') \<and>
        Storage_get (getBurnerKey s') s' = None \<and> list s' = []"
  using clear_spec [of drain_fails_env None "[2, 0]" example_state] .

section \<open>Prefunding\<close>

text \<open>
  Claim C7. Whatever \<open>prefundAccount\<close> returns, the calls it has added to the trace are a
  beginning of the sequence: the nonce of the source account, one \<^verbatim>\<open>execute\<close> of a single
  call (entry point \<open>transfer\<close>, on the fee-token contract, with the destination address
  and the amount as call data) carrying that nonce, one \<^verbatim>\<open>waitForTransaction\<close> on the
  hash that \<^verbatim>\<open>execute\<close> returned. It returns a value exactly when all three calls were
  made and the wait gave a truthy result, and the value is that result. It throws
  otherwise: the rejection of the call that failed, or \<open>Transaction did not complete
  successfully.\<close> when the wait gave nothing.
\<close>

theorem prefundAccount_spec:
  assumes "prefundAccount w addr account fee amount td s = (r, s')"
  shows "entrypoint (transferOptions w addr fee amount) = ''transfer'' \<and>
         contractAddress (transferOptions w addr fee amount) = fee \<and>
         calldata (transferOptions w addr fee amount) = compile w [addr, amount, ''0x0''] \<and>
         (\<exists>tail. calls s' = calls s @ tail \<and>
            (case r of
               Inr receipt \<Rightarrow>
                 (\<exists>n tx.
                    tail = [GetNonce (address account),
                            Execute (address account) [transferOptions w addr fee amount]
                              (with_details (Some n) td),
                            WaitForTransaction tx 1000] \<and>
                    getNonce w (length (calls s)) (address account) = Inr n \<and>
                    execute w (length (calls s) + 1) (address account)
                      [transferOptions w addr fee amount] (with_details (Some n) td) = Inr tx \<and>
                    waitForTransaction w (length (calls s) + 2) tx = Inr (Some receipt))
             | Inl e \<Rightarrow>
                 (tail = [GetNonce (address account)] \<and>
                  (\<exists>m. e = Rejected m \<and>
                       getNonce w (length (calls s)) (address account) = Inl m)) \<or>
                 (\<exists>n. tail = [GetNonce (address account),
                              Execute (address account) [transferOptions w addr fee amount]
                                (with_details (Some n) td)] \<and>
                      getNonce w (length (calls s)) (address account) = Inr n \<and>
                      (\<exists>m. e = Rejected m \<and>
                           execute w (length (calls s) + 1) (address account)
                             [transferOptions w addr fee amount] (with_details (Some n) td) = Inl m)) \<or>
                 (\<exists>n tx. tail = [GetNonce (address account),
                                 Execute (address account) [transferOptions w addr fee amount]
                                   (with_details (Some n) td),
                                 WaitForTransaction tx 1000] \<and>
                      getNonce w (length (calls s)) (address account) = Inr n \<and>
                      execute w (length (calls s) + 1) (address account)
                        [transferOptions w addr fee amount] (with_details (Some n) td) = Inr tx \<and>
                      ((waitForTransaction w (length (calls s) + 2) tx = Inr None \<and>
                        e = Error ''Transaction did not complete successfully.'') \<or>
                       (\<exists>m. e = Rejected m \<and>
                            waitForTransaction w (length (calls s) + 2) tx = Inl m)))))"
  using assms
  by (auto simp add: prefundAccount_def transferOptions_def Let_def now_def emit_def
      split: sum.splits option.splits)


theorem prefundAccount_spec_witness:
  "\<exists>s'. prefundAccount example_env ''0x9'' (this_masterAccount example_state) ''0xfe''
           PREFUND_AMOUNT None example_state = (Inr ''receipt'', s') \<and>
        calls s' =
          [GetNonce ''0xaa'',
           Execute ''0xaa''
             [\<lparr>contractAddress = ''0xfe'', entrypoint = ''transfer'',
               calldata = [''0x9'', ''0x2386f26fc10000'', ''0x0'']\<rparr>]
             \<lparr>nonce = Some ''0x5'', maxFee = Some ''0''\<rparr>,
           WaitForTransaction ''0xe1'' 1000]"
proof -
  obtain r s' where run:
    "prefundAccount example_env ''0x9'' (this_masterAccount example_state) ''0xfe''
       PREFUND_AMOUNT None example_state = (r, s')"
    by (cases "prefundAccount example_env ''0x9'' (this_masterAccount example_state) ''0xfe''
       PREFUND_AMOUNT None example_state")
  then have r: "r = Inr ''receipt''"
    by (simp add: prefundAccount_def example_env_def Let_def)
  have fields: "address (this_masterAccount example_state) = ''0xaa''" "calls example_state = []"
    by (simp_all add: example_state_def constructor_def)
  from prefundAccount_spec [OF run] r fields
  have "calls s' =
          [GetNonce ''0xaa'',
           Execute ''0xaa''
             [\<lparr>contractAddress = ''0xfe'', entrypoint = ''transfer'',
               calldata = [''0x9'', ''0x2386f26fc10000'', ''0x0'']\<rparr>]
             \<lparr>nonce = Some ''0x5'', maxFee = Some ''0''\<rparr>,
           WaitForTransaction ''0xe1'' 1000]"
    by (auto simp add: example_env_def transferOptions_def with_details_def PREFUND_AMOUNT_def)
  with run r show ?thesis by simp
qed

section \<open>Creating a burner\<close>

lemma frame_refl [simp]: "frame s s"
  by (simp add: frame_def)

lemma take_prefix_trans:
  assumes "take (length xs) ys = xs" and "take (length ys) zs = ys"
  shows "take (length xs) zs = xs"
proof -
  from assms(1) have "length xs \<le> length ys"
    by (metis length_take min.cobounded1)
  then have "take (length xs) (take (length ys) zs) = take (length xs) zs"
    by (simp add: min.absorb1)
  with assms show ?thesis by simp
qed

lemma frame_trans: "frame s s1 \<Longrightarrow> frame s1 s2 \<Longrightarrow> frame s s2"
  unfolding frame_def using take_prefix_trans [of "calls s" "calls s1" "calls s2"] by simp

lemma frame_emit [simp]: "frame s (emit ev s)"
  by (simp add: frame_def emit_def)

lemma frame_updateIsDeploying [simp]: "frame s (updateIsDeploying b s)"
  by (simp add: frame_def updateIsDeploying_def emit_def Let_def)

lemma frame_emit_trans: "frame s s1 \<Longrightarrow> frame s (emit ev s1)"
  by (rule frame_trans [OF _ frame_emit])

lemma frame_updateIsDeploying_trans: "frame s s1 \<Longrightarrow> frame s (updateIsDeploying b s1)"
  by (rule frame_trans [OF _ frame_updateIsDeploying])

lemma frame_prefundAccount:
  "prefundAccount w addr account fee amount td s = (r, s') \<Longrightarrow> frame s s'"
  by (auto simp add: prefundAccount_def Let_def split: sum.splits option.splits
      intro!: frame_emit_trans)

lemma frame_create_deployAccount:
  "create_deployAccount w burner payload details s = (r, s') \<Longrightarrow> frame s s'"
  by (auto simp add: create_deployAccount_def Let_def split: sum.splits
      intro!: frame_emit_trans frame_updateIsDeploying_trans)

lemma frame_create_deploy:
  "create_deploy w burner payload td s = (r, s') \<Longrightarrow> frame s s'"
  by (auto simp add: create_deploy_def Let_def split: sum.splits option.splits
      intro!: frame_emit_trans frame_updateIsDeploying_trans
      dest!: frame_create_deployAccount elim: frame_trans [rotated])

lemma frame_isBurnerDeployed:
  "isBurnerDeployed w tx s = (d, s') \<Longrightarrow> frame s s'"
  by (auto simp add: isBurnerDeployed_def split: sum.splits)

lemma frame_create_wait:
  "create_wait w tx s = (r, s') \<Longrightarrow> frame s s'"
  by (auto simp add: create_wait_def Let_def split: sum.splits option.splits prod.splits bool.splits
      intro!: frame_emit_trans dest!: frame_isBurnerDeployed)

lemma frame_storage:
  "frame s s' \<Longrightarrow> getBurnerStorage s' = getBurnerStorage s \<and> getBurnerKey s' = getBurnerKey s"
  by (simp add: frame_def getBurnerStorage_def getBurnerKey_def Storage_get_def)


lemma frame_calls: "frame s s' \<Longrightarrow> set (calls s) \<subseteq> set (calls s')"
proof -
  assume "frame s s'"
  then have "take (length (calls s)) (calls s') = calls s" by (simp add: frame_def)
  then show ?thesis by (metis set_take_subset)
qed

lemma create_deployAccount_returns:
  "create_deployAccount w burner payload details s = (Inr tx, s') \<Longrightarrow>
     deployAccount w (now s) burner payload details = Inr tx \<and>
     DeployAccount burner payload details \<in> set (calls s')"
  by (auto simp add: create_deployAccount_def Let_def split: sum.splits)

lemma create_deploy_returns:
  "create_deploy w burner payload td s = (Inr tx, s') \<Longrightarrow>
     \<exists>t details. deployAccount w t burner payload details = Inr tx \<and>
       DeployAccount burner payload details \<in> set (calls s')"
  by (auto simp add: create_deploy_def Let_def split: sum.splits option.splits
      dest!: create_deployAccount_returns)

lemma create_store_spec:
  "this_account (create_store options k tx burner s) = Some burner \<and>
   localStorage (create_store options k tx burner s) =
     (localStorage s)(getBurnerKey s \<mapsto>
        DAList.update (keys_address k) (new_entry options k tx s)
          (deactivate_all (getBurnerStorage s))) \<and>
   getBurnerKey (create_store options k tx burner s) = getBurnerKey s \<and>
   set (calls s) \<subseteq> set (calls (create_store options k tx burner s))"
  by (auto simp add: create_store_def Let_def updateIsDeploying_def emit_def Storage_set_def
      getBurnerKey_def)

lemma create_returns:
  assumes "create w options s = (Inr burner, s')"
  shows "this_isInitialized s \<and>
         burner = \<lparr>address = keys_address (generateKeysAndAddress w options (updateIsDeploying True s)),
                   signer = Some (keys_privateKey (generateKeysAndAddress w options (updateIsDeploying True s)))\<rparr> \<and>
         (\<exists>s5 tx t payload details.
            frame s s5 \<and>
            s' = create_store options (generateKeysAndAddress w options (updateIsDeploying True s))
                   tx burner s5 \<and>
            deployAccount w t burner payload details = Inr tx \<and>
            DeployAccount burner payload details \<in> set (calls s5))"
proof -
  from assms have init: "this_isInitialized s"
    by (auto simp add: create_def split: if_splits)
  define s1 where "s1 = updateIsDeploying True s"
  define k where "k = generateKeysAndAddress w options s1"
  define td where "td = (case options of None \<Rightarrow> None | Some opts \<Rightarrow> transactionDetails opts)"
  define amount where "amount =
     (case options of
        None \<Rightarrow> PREFUND_AMOUNT
      | Some opts \<Rightarrow>
          if truthy (prefundedAmount opts)
          then (case prefundedAmount opts of None \<Rightarrow> PREFUND_AMOUNT | Some a \<Rightarrow> a)
          else PREFUND_AMOUNT)"
  define payload where "payload =
     \<lparr>classHash = this_accountClassHash s1, constructorCalldata = compile w [keys_publicKey k],
      addressSalt = keys_publicKey k\<rparr>"
  define b where "b = \<lparr>address = keys_address k, signer = Some (keys_privateKey k)\<rparr>"
  obtain r s2 where pf: "prefundAccount w (keys_address k) (this_masterAccount s1)
      (this_feeTokenAddress s1) amount td s1 = (r, s2)"
    by (cases "prefundAccount w (keys_address k) (this_masterAccount s1)
      (this_feeTokenAddress s1) amount td s1")
  define s3 where "s3 = (case r of Inl _ \<Rightarrow> updateIsDeploying False s2 | Inr _ \<Rightarrow> s2)"
  obtain rd s4 where dp: "create_deploy w b payload td s3 = (rd, s4)"
    by (cases "create_deploy w b payload td s3")
  have unfolded: "create w options s =
      (case rd of
         Inl e \<Rightarrow> (Inl e, s4)
       | Inr tx \<Rightarrow>
           (case create_wait w tx s4 of
              (Inl e, s5) \<Rightarrow> (Inl e, s5)
            | (Inr _, s5) \<Rightarrow> (Inr b, create_store options k tx b s5)))"
    using init pf dp
    unfolding s3_def b_def payload_def amount_def td_def k_def s1_def
    by (simp add: create_def Let_def)
  from unfolded assms obtain tx where rd: "rd = Inr tx"
    by (cases rd) auto
  obtain rw s5 where wt: "create_wait w tx s4 = (rw, s5)"
    by (cases "create_wait w tx s4")
  from unfolded assms rd wt have res: "burner = b" "s' = create_store options k tx b s5"
    by (cases rw; simp)+
  have f1: "frame s s1" by (simp add: s1_def)
  have f2: "frame s1 s2" by (rule frame_prefundAccount [OF pf])
  have f3: "frame s2 s3" by (cases r) (simp_all add: s3_def)
  have f4: "frame s3 s4" by (rule frame_create_deploy [OF dp])
  have f5: "frame s4 s5" by (rule frame_create_wait [OF wt])
  have f: "frame s s5"
    by (rule frame_trans [OF frame_trans [OF frame_trans [OF frame_trans [OF f1 f2] f3] f4] f5])
  from create_deploy_returns [OF dp [unfolded rd]]
  obtain t details where d: "deployAccount w t b payload details = Inr tx"
    "DeployAccount b payload details \<in> set (calls s4)"
    by blast
  with frame_calls [OF f5] have "DeployAccount b payload details \<in> set (calls s5)"
    by blast
  with init res f d(1) show ?thesis
    unfolding b_def k_def s1_def by blast
qed

lemma lookup_update_deactivate:
  "DAList.lookup (DAList.update k v (deactivate_all st)) a =
     (if a = k then Some v else map_option (\<lambda>e. e\<lparr>active := False\<rparr>) (DAList.lookup st a))"
  by (simp add: DAList.lookup_update)

text \<open>
  Claim C3. When \<open>create\<close> returns a burner, the manager was initialised; the burner
  is the account of the generated address and private key; it is the manager's account
  afterwards; local storage holds, under the burner key, a storage in which the new
  address maps to an entry with the manager's chain id, the generated private and public
  keys, the hash that \<^verbatim>\<open>deployAccount\<close> returned for this burner, the master account's
  address and the flag set, and in which every other address maps to what it mapped to
  before with its flag cleared.
\<close>

theorem create_spec:
  assumes "create w options s = (Inr burner, s')"
  shows "this_isInitialized s \<and>
         burner = \<lparr>address = keys_address (generateKeysAndAddress w options (updateIsDeploying True s)),
                   signer = Some (keys_privateKey (generateKeysAndAddress w options (updateIsDeploying True s)))\<rparr> \<and>
         this_account s' = Some burner \<and>
         localStorage s' = (localStorage s)(getBurnerKey s \<mapsto> getBurnerStorage s') \<and>
         (\<exists>e. DAList.lookup (getBurnerStorage s') (address burner) = Some e \<and>
              chainId e = this_chainId s \<and>
              Some (privateKey e) = signer burner \<and>
              publicKey e = keys_publicKey (generateKeysAndAddress w options (updateIsDeploying True s)) \<and>
              masterAccount e = address (this_masterAccount s) \<and>
              active e \<and>
              (\<exists>t payload details.
                 deployAccount w t burner payload details = Inr (deployTx e) \<and>
                 DeployAccount burner payload details \<in> set (calls s'))) \<and>
         (\<forall>a. a \<noteq> address burner \<longrightarrow>
              DAList.lookup (getBurnerStorage s') a =
                map_option (\<lambda>e. e\<lparr>active := False\<rparr>) (DAList.lookup (getBurnerStorage s) a))"
proof -
  let ?k = "generateKeysAndAddress w options (updateIsDeploying True s)"
  from create_returns [OF assms]
  obtain s5 tx t payload details where init: "this_isInitialized s"
    and b: "burner = \<lparr>address = keys_address ?k, signer = Some (keys_privateKey ?k)\<rparr>"
    and f: "frame s s5" and s': "s' = create_store options ?k tx burner s5"
    and d: "deployAccount w t burner payload details = Inr tx"
    and ev: "DeployAccount burner payload details \<in> set (calls s5)"
    by blast
  note st = frame_storage [OF f]
  note cs = create_store_spec [of options ?k tx burner s5]
  from f have fields: "this_chainId s5 = this_chainId s"
    "this_masterAccount s5 = this_masterAccount s" "localStorage s5 = localStorage s"
    by (simp_all add: frame_def)
  let ?e = "new_entry options ?k tx s5"
  let ?st = "DAList.update (keys_address ?k) ?e (deactivate_all (getBurnerStorage s))"
  have ls: "localStorage s' = (localStorage s)(getBurnerKey s \<mapsto> ?st)"
    using cs st fields s' by simp
  have key: "getBurnerKey s' = getBurnerKey s"
    using cs st s' by simp
  have stor: "getBurnerStorage s' = ?st"
    using ls key by (simp add: getBurnerStorage_def Storage_get_def)
  have acc: "this_account s' = Some burner"
    using cs s' by simp
  have entry: "chainId ?e = this_chainId s \<and> Some (privateKey ?e) = signer burner \<and>
      publicKey ?e = keys_publicKey ?k \<and> masterAccount ?e = address (this_masterAccount s) \<and>
      active ?e \<and> deployTx ?e = tx"
    using fields b by (simp add: new_entry_def)
  have ev': "DeployAccount burner payload details \<in> set (calls s')"
    using ev cs s' by blast
  have look: "DAList.lookup ?st a =
      (if a = address burner then Some ?e
       else map_option (\<lambda>e. e\<lparr>active := False\<rparr>) (DAList.lookup (getBurnerStorage s) a))" for a
    using b by (simp add: lookup_update_deactivate)
  show ?thesis
    using init b acc ls stor entry d ev' look
    by (simp del: lookup_deactivate_all) blast
qed


lemma emit_fields [simp]:
  "this_masterAccount (emit ev s) = this_masterAccount s"
  "this_accountClassHash (emit ev s) = this_accountClassHash s"
  "this_feeTokenAddress (emit ev s) = this_feeTokenAddress s"
  "this_account (emit ev s) = this_account s"
  "this_isDeploying (emit ev s) = this_isDeploying s"
  "this_setIsDeploying (emit ev s) = this_setIsDeploying s"
  "this_afterDeploying (emit ev s) = this_afterDeploying s"
  "now (emit ev s) = Suc (now s)"
  by (simp_all add: emit_def now_def)

lemma updateIsDeploying_fields [simp]:
  "this_masterAccount (updateIsDeploying b s) = this_masterAccount s"
  "this_accountClassHash (updateIsDeploying b s) = this_accountClassHash s"
  "this_feeTokenAddress (updateIsDeploying b s) = this_feeTokenAddress s"
  "this_chainId (updateIsDeploying b s) = this_chainId s"
  "this_account (updateIsDeploying b s) = this_account s"
  "this_isDeploying (updateIsDeploying b s) = b"
  "this_isInitialized (updateIsDeploying b s) = this_isInitialized s"
  "this_setIsDeploying (updateIsDeploying b s) = this_setIsDeploying s"
  "this_afterDeploying (updateIsDeploying b s) = this_afterDeploying s"
  "localStorage (updateIsDeploying b s) = localStorage s"
  "calls (updateIsDeploying b s) =
     (if this_setIsDeploying s then calls s @ [SetIsDeploying b] else calls s)"
  "now (updateIsDeploying b s) = (if this_setIsDeploying s then Suc (now s) else now s)"
  by (simp_all add: updateIsDeploying_def emit_def now_def Let_def)

lemma Storage_set_fields [simp]:
  "this_masterAccount (Storage_set key v s) = this_masterAccount s"
  "this_chainId (Storage_set key v s) = this_chainId s"
  "this_account (Storage_set key v s) = this_account s"
  "this_isDeploying (Storage_set key v s) = this_isDeploying s"
  "this_isInitialized (Storage_set key v s) = this_isInitialized s"
  "this_setIsDeploying (Storage_set key v s) = this_setIsDeploying s"
  "this_afterDeploying (Storage_set key v s) = this_afterDeploying s"
  "calls (Storage_set key v s) = calls s"
  "localStorage (Storage_set key v s) = (localStorage s)(key \<mapsto> v)"
  by (simp_all add: Storage_set_def)

lemma example_state_fields:
  "this_isInitialized example_state" "this_account example_state = None"
  "this_setIsDeploying example_state = False" "this_afterDeploying example_state = False"
  "calls example_state = []" "this_accountClassHash example_state = ''0xc0''"
  "this_feeTokenAddress example_state = ''0xfe''" "this_chainId example_state = ''KATANA''"
  "this_masterAccount example_state = \<lparr>address = ''0xaa'', signer = Some ''0xa0''\<rparr>"
  "now example_state = 0"
  by (simp_all add: example_state_def constructor_def now_def)

lemmas create_unfold =
  create_def prefundAccount_def create_deploy_def create_deployAccount_def create_wait_def
  create_store_def isBurnerDeployed_def generateKeysAndAddress_def
  with_details_def transferOptions_def PREFUND_AMOUNT_def Let_def

text \<open>
  Claim C1, on an input where the prefund fails. The master account's nonce cannot be
  read, so \<open>prefundAccount\<close> throws before any transfer is executed. \<open>create\<close>
  catches that at line 364, goes on, issues the burner's \<^verbatim>\<open>deployAccount\<close> and returns the
  burner: the trace of the successful call has the deployment and no transfer.
\<close>

theorem create_without_prefund:
  "fst (create prefund_fails_env None example_state) = Inr \<lparr>address = ''0x9'', signer = Some ''0xc9''\<rparr> \<and>
   calls (snd (create prefund_fails_env None example_state)) =
     [GetNonce ''0xaa'',
      DeployAccount \<lparr>address = ''0x9'', signer = Some ''0xc9''\<rparr>
        \<lparr>classHash = ''0xc0'', constructorCalldata = [''0xb9''], addressSalt = ''0xb9''\<rparr>
        \<lparr>nonce = None, maxFee = Some ''0''\<rparr>,
      GetTransactionReceipt ''0xd9'']"
  by (simp add: create_unfold prefund_fails_env_def example_env_def example_state_fields)


theorem create_spec_witness:
  "\<exists>s'. create example_env None example_state = (Inr \<lparr>address = ''0x9'', signer = Some ''0xc9''\<rparr>, s') \<and>
        this_account s' = Some \<lparr>address = ''0x9'', signer = Some ''0xc9''\<rparr> \<and>
        (\<exists>e. DAList.lookup (getBurnerStorage s') ''0x9'' = Some e \<and>
             chainId e = ''KATANA'' \<and> privateKey e = ''0xc9'' \<and> publicKey e = ''0xb9'' \<and>
             masterAccount e = ''0xaa'' \<and> active e \<and> deployTx e = ''0xd9'') \<and>
        DAList.lookup (getBurnerStorage s') ''0x1'' = Some (example_entry ''0xc1'' ''0xaa'' False)"
proof -
  obtain r s' where run: "create example_env None example_state = (r, s')"
    by (cases "create example_env None example_state")
  have "fst (create example_env None example_state) = Inr \<lparr>address = ''0x9'', signer = Some ''0xc9''\<rparr>"
    by (simp add: create_unfold example_env_def example_state_fields)
  with run have r: "r = Inr \<lparr>address = ''0x9'', signer = Some ''0xc9''\<rparr>" by simp
  have k: "generateKeysAndAddress example_env None (updateIsDeploying True example_state) =
      \<lparr>keys_privateKey = ''0xc9'', keys_publicKey = ''0xb9'', keys_address = ''0x9''\<rparr>"
    by (simp add: generateKeysAndAddress_def example_env_def Let_def)
  have old: "DAList.lookup example_storage ''0x1'' = Some (example_entry ''0xc1'' ''0xaa'' True)"
    by (simp add: example_storage_def)
  have spec:
    "this_account s' = Some \<lparr>address = ''0x9'', signer = Some ''0xc9''\<rparr> \<and>
     (\<exists>e. DAList.lookup (getBurnerStorage s') ''0x9'' = Some e \<and>
          chainId e = ''KATANA'' \<and> privateKey e = ''0xc9'' \<and> publicKey e = ''0xb9'' \<and>
          masterAccount e = ''0xaa'' \<and> active e \<and>
          (\<exists>t payload details.
             deployAccount example_env t \<lparr>address = ''0x9'', signer = Some ''0xc9''\<rparr> payload details =
               Inr (deployTx e) \<and>
             DeployAccount \<lparr>address = ''0x9'', signer = Some ''0xc9''\<rparr> payload details
               \<in> set (calls s'))) \<and>
     (\<forall>a. a \<noteq> ''0x9'' \<longrightarrow>
          DAList.lookup (getBurnerStorage s') a =
            map_option (\<lambda>e. e\<lparr>active := False\<rparr>) (DAList.lookup example_storage a))"
    using create_spec [OF run [unfolded r]] by (simp add: k example_state_fields)
  then obtain e where e: "DAList.lookup (getBurnerStorage s') ''0x9'' = Some e"
    "chainId e = ''KATANA''" "privateKey e = ''0xc9''" "publicKey e = ''0xb9''"
    "masterAccount e = ''0xaa''" "active e"
    and d: "\<exists>t payload details.
       deployAccount example_env t \<lparr>address = ''0x9'', signer = Some ''0xc9''\<rparr> payload details =
         Inr (deployTx e)"
    by blast
  from d have tx: "deployTx e = ''0xd9''"
    by (auto simp add: example_env_def)
  from spec have "DAList.lookup (getBurnerStorage s') ''0x1'' =
      map_option (\<lambda>e. e\<lparr>active := False\<rparr>) (DAList.lookup example_storage ''0x1'')"
    by simp
  then have other: "DAList.lookup (getBurnerStorage s') ''0x1'' =
      Some (example_entry ''0xc1'' ''0xaa'' False)"
    by (simp add: old example_entry_def)
  from spec e tx other
  have "this_account s' = Some \<lparr>address = ''0x9'', signer = Some ''0xc9''\<rparr> \<and>
        (\<exists>e. DAList.lookup (getBurnerStorage s') ''0x9'' = Some e \<and>
             chainId e = ''KATANA'' \<and> privateKey e = ''0xc9'' \<and> publicKey e = ''0xb9'' \<and>
             masterAccount e = ''0xaa'' \<and> active e \<and> deployTx e = ''0xd9'') \<and>
        DAList.lookup (getBurnerStorage s') ''0x1'' = Some (example_entry ''0xc1'' ''0xaa'' False)"
    by blast
  with run r show ?thesis by simp
qed

section \<open>The initialisation guard\<close>

lemma select_flag:
  "this_isInitialized (snd (select addr s)) = this_isInitialized s"
  by (simp add: select_def Let_def split: option.split property.split)

lemma deselect_flag: "this_isInitialized (deselect s) = this_isInitialized s"
  by (simp add: deselect_def Let_def)

lemma delete_finish_flag:
  "this_isInitialized (snd (delete_finish p s)) = this_isInitialized s"
  by (simp add: delete_finish_def Let_def select_flag
      split: pending_delete.split sum.split list.split)

lemma delete_flag: "this_isInitialized (snd (delete w addr td s)) = this_isInitialized s"
proof -
  obtain p s1 where b: "delete_begin w addr td s = (p, s1)"
    by (cases "delete_begin w addr td s")
  with delete_begin_frame [OF b] show ?thesis
    by (simp add: delete_def delete_finish_flag)
qed

lemma settle_all_flag: "this_isInitialized (snd (settle_all ps s)) = this_isInitialized s"
proof (induction ps arbitrary: s)
  case Nil
  then show ?case by simp
next
  case (Cons p ps)
  obtain r s1 where f: "delete_finish p s = (r, s1)"
    by (cases "delete_finish p s")
  with delete_finish_flag [of p s] have "this_isInitialized s1 = this_isInitialized s"
    by simp
  with Cons f show ?case by (cases r) simp_all
qed

lemma begin_all_flag:
  "this_isInitialized (snd (begin_all w td addrs s)) = this_isInitialized s"
proof (induction addrs arbitrary: s)
  case Nil
  then show ?case by simp
next
  case (Cons addr addrs)
  obtain p s1 where b: "delete_begin w addr td s = (p, s1)"
    by (cases "delete_begin w addr td s")
  with delete_begin_frame [OF b] Cons [of s1] show ?case
    by (auto split: prod.split)
qed

lemma Storage_remove_flag [simp]:
  "this_isInitialized (Storage_remove key s) = this_isInitialized s"
  by (simp add: Storage_remove_def)

lemma clear_finish_flag:
  "this_isInitialized (snd (clear_finish choices ps s)) = this_isInitialized s"
proof -
  obtain r s1 where f: "settle_all (completion_order choices ps) s = (r, s1)"
    by (cases "settle_all (completion_order choices ps) s")
  with settle_all_flag [of "completion_order choices ps" s] show ?thesis
    by (cases r) (simp_all add: clear_finish_def)
qed

lemma clear_flag: "this_isInitialized (snd (clear w td choices s)) = this_isInitialized s"
proof -
  obtain ps s1 where b: "clear_begin w td s = (ps, s1)"
    by (cases "clear_begin w td s")
  with begin_all_flag [of w td "keys (getBurnerStorage s)" s] show ?thesis
    by (simp add: clear_def clear_begin_def clear_finish_flag)
qed

lemma setBurnersFromClipboard_flag:
  "this_isInitialized (snd (setBurnersFromClipboard clipboard s)) = this_isInitialized s"
  by (simp add: setBurnersFromClipboard_def Let_def select_flag split: sum.split option.split)

lemma create_store_flag [simp]:
  "this_isInitialized (create_store options k tx burner s) = this_isInitialized s"
  by (simp add: create_store_def Let_def)

lemma create_flag: "this_isInitialized (snd (create w options s)) = this_isInitialized s"
proof (cases "this_isInitialized s")
  case False
  then show ?thesis by (simp add: create_def)
next
  case True
  define s1 where "s1 = updateIsDeploying True s"
  define k where "k = generateKeysAndAddress w options s1"
  define td where "td = (case options of None \<Rightarrow> None | Some opts \<Rightarrow> transactionDetails opts)"
  define amount where "amount =
     (case options of
        None \<Rightarrow> PREFUND_AMOUNT
      | Some opts \<Rightarrow>
          if truthy (prefundedAmount opts)
          then (case prefundedAmount opts of None \<Rightarrow> PREFUND_AMOUNT | Some a \<Rightarrow> a)
          else PREFUND_AMOUNT)"
  define payload where "payload =
     \<lparr>classHash = this_accountClassHash s1, constructorCalldata = compile w [keys_publicKey k],
      addressSalt = keys_publicKey k\<rparr>"
  define b where "b = \<lparr>address = keys_address k, signer = Some (keys_privateKey k)\<rparr>"
  obtain r s2 where pf: "prefundAccount w (keys_address k) (this_masterAccount s1)
      (this_feeTokenAddress s1) amount td s1 = (r, s2)"
    by (cases "prefundAccount w (keys_address k) (this_masterAccount s1)
      (this_feeTokenAddress s1) amount td s1")
  define s3 where "s3 = (case r of Inl _ \<Rightarrow> updateIsDeploying False s2 | Inr _ \<Rightarrow> s2)"
  obtain rd s4 where dp: "create_deploy w b payload td s3 = (rd, s4)"
    by (cases "create_deploy w b payload td s3")
  have unfolded: "create w options s =
      (case rd of
         Inl e \<Rightarrow> (Inl e, s4)
       | Inr tx \<Rightarrow>
           (case create_wait w tx s4 of
              (Inl e, s5) \<Rightarrow> (Inl e, s5)
            | (Inr _, s5) \<Rightarrow> (Inr b, create_store options k tx b s5)))"
    using True pf dp
    unfolding s3_def b_def payload_def amount_def td_def k_def s1_def
    by (simp add: create_def Let_def)
  have f1: "frame s s1" by (simp add: s1_def)
  have f2: "frame s1 s2" by (rule frame_prefundAccount [OF pf])
  have f3: "frame s2 s3" by (cases r) (simp_all add: s3_def)
  have f4: "frame s3 s4" by (rule frame_create_deploy [OF dp])
  have f: "frame s s4"
    by (rule frame_trans [OF frame_trans [OF frame_trans [OF f1 f2] f3] f4])
  then have i4: "this_isInitialized s4 = this_isInitialized s" by (simp add: frame_def)
  show ?thesis
  proof (cases rd)
    case (Inl e)
    with unfolded i4 show ?thesis by simp
  next
    case (Inr tx)
    obtain rw s5 where wt: "create_wait w tx s4 = (rw, s5)"
      by (cases "create_wait w tx s4")
    from frame_create_wait [OF wt] i4 have "this_isInitialized s5 = this_isInitialized s"
      by (simp add: frame_def)
    with unfolded Inr wt show ?thesis by (cases rw) simp_all
  qed
qed

lemma init_flag:
  "this_isInitialized (snd (init w k s)) =
     (this_isInitialized s \<or> (\<exists>p. fst (init w k s) = Inr p))"
proof (cases "this_isInitialized s")
  case True
  then show ?thesis by (simp add: init_def)
next
  case False
  show ?thesis
  proof (cases "getChainId w (now s)")
    case (Inl e)
    with False show ?thesis by (simp add: init_def)
  next
    case (Inr c)
    with False show ?thesis
      by (simp add: init_def Let_def split: prod.split)
  qed
qed

lemma exec_initialized: "this_isInitialized s \<Longrightarrow> this_isInitialized (exec w c s)"
  by (cases c)
     (simp_all add: init_flag create_flag select_flag deselect_flag delete_flag clear_flag
        setBurnersFromClipboard_flag delete_finish_flag)

lemma exec_uninitialized:
  "\<not> this_isInitialized s \<Longrightarrow> \<not> is_Init c \<Longrightarrow> \<not> this_isInitialized (exec w c s)"
  by (cases c)
     (simp_all add: create_flag select_flag deselect_flag delete_flag clear_flag
        setBurnersFromClipboard_flag delete_finish_flag)

lemma run_initialized: "this_isInitialized s \<Longrightarrow> this_isInitialized (run w cmds s)"
  unfolding run_def by (induction cmds arbitrary: s) (simp_all add: exec_initialized)

lemma run_uninitialized:
  "\<not> this_isInitialized s \<Longrightarrow> \<forall>c \<in> set cmds. \<not> is_Init c \<Longrightarrow>
     \<not> this_isInitialized (run w cmds s)"
  unfolding run_def by (induction cmds arbitrary: s) (simp_all add: exec_uninitialized)


text \<open>
  Claim C10. On a manager whose flag is not set, \<open>create\<close> throws
  \<open>BurnerManager is not initialized\<close> and the state, local storage included, is what it
  was; on a manager whose flag is set, \<open>init\<close> throws
  \<open>BurnerManager is already initialized\<close> and the state is what it was. The flag is not
  set by the constructor nor by any operation other than \<open>init\<close>, so \<open>create\<close> throws
  after any sequence of operations without \<open>init\<close> on a new manager; the flag is set by
  a successful \<open>init\<close> and no operation clears it, so \<open>init\<close> throws after a
  successful \<open>init\<close> followed by any sequence of operations.
\<close>

theorem initialization_guard:
  "(\<not> this_isInitialized s \<longrightarrow>
      create w options s = (Inl (Error ''BurnerManager is not initialized''), s)) \<and>
   (this_isInitialized s \<longrightarrow>
      init w k s = (Inl (Error ''BurnerManager is already initialized''), s)) \<and>
   ((\<forall>c \<in> set cmds. \<not> is_Init c) \<longrightarrow>
      create w options (run w cmds (constructor master h fee ls)) =
        (Inl (Error ''BurnerManager is not initialized''),
         run w cmds (constructor master h fee ls))) \<and>
   (init w k s = (Inr p, s') \<longrightarrow>
      init w k' (run w cmds s') =
        (Inl (Error ''BurnerManager is already initialized''), run w cmds s'))"
proof (intro conjI impI)
  assume "\<not> this_isInitialized s"
  then show "create w options s = (Inl (Error ''BurnerManager is not initialized''), s)"
    by (simp add: create_def)
next
  assume "this_isInitialized s"
  then show "init w k s = (Inl (Error ''BurnerManager is already initialized''), s)"
    by (simp add: init_def)
next
  assume "\<forall>c \<in> set cmds. \<not> is_Init c"
  moreover have "\<not> this_isInitialized (constructor master h fee ls)"
    by (simp add: constructor_def)
  ultimately have "\<not> this_isInitialized (run w cmds (constructor master h fee ls))"
    by (rule run_uninitialized [rotated])
  then show "create w options (run w cmds (constructor master h fee ls)) =
        (Inl (Error ''BurnerManager is not initialized''),
         run w cmds (constructor master h fee ls))"
    by (simp add: create_def)
next
  assume "init w k s = (Inr p, s')"
  with init_flag [of w k s] have "this_isInitialized s'" by simp
  then have "this_isInitialized (run w cmds s')" by (rule run_initialized)
  then show "init w k' (run w cmds s') =
        (Inl (Error ''BurnerManager is already initialized''), run w cmds s')"
    by (simp add: init_def)
qed

lemma entries_example_storage:
  "entries example_storage =
     [(''0x1'', example_entry ''0xc1'' ''0xaa'' True),
      (''0x2'', example_entry ''0xc2'' ''0xaa'' False),
      (''0x3'', example_entry ''0xc3'' ''0xbb'' False)]"
  by (simp add: entries_def example_storage_def DAList.update.rep_eq DAList.empty.rep_eq)

lemma init_fresh_state: "fst (init example_env False fresh_state) = Inr None"
proof -
  have s1: "getBurnerStorage ((emit GetChainId fresh_state)\<lparr>this_chainId := ''KATANA''\<rparr>)
      = example_storage"
    by (simp add: getBurnerStorage_def Storage_get_def getBurnerKey_def fresh_state_def
        constructor_def emit_def)
  have ks: "keys example_storage \<noteq> []"
    by (simp add: keys_def example_storage_def DAList.update.rep_eq DAList.empty.rep_eq)
  have flag: "\<not> this_isInitialized fresh_state"
    by (simp add: fresh_state_def constructor_def)
  show ?thesis
    using flag ks
    by (simp add: init_def example_env_def s1 entries_example_storage isBurnerDeployed_def
        Let_def split: prod.split)
qed

theorem initialization_guard_witness:
  "create example_env None (run example_env [Select ''0x2'', Deselect] fresh_state) =
     (Inl (Error ''BurnerManager is not initialized''),
      run example_env [Select ''0x2'', Deselect] fresh_state) \<and>
   init example_env False example_state =
     (Inl (Error ''BurnerManager is already initialized''), example_state) \<and>
   (\<exists>s'. init example_env False fresh_state = (Inr None, s') \<and>
      init example_env True (run example_env [Create None, Select ''0x1''] s') =
        (Inl (Error ''BurnerManager is already initialized''),
         run example_env [Create None, Select ''0x1''] s'))"
proof -
  obtain r s' where run: "init example_env False fresh_state = (r, s')"
    by (cases "init example_env False fresh_state")
  with init_fresh_state have r: "r = Inr None" by simp
  have a: "create example_env None (run example_env [Select ''0x2'', Deselect] fresh_state) =
     (Inl (Error ''BurnerManager is not initialized''),
      run example_env [Select ''0x2'', Deselect] fresh_state)"
    using initialization_guard [where cmds = "[Select ''0x2'', Deselect]" and w = example_env
        and options = None and master = "\<lparr>address = ''0xaa'', signer = Some ''0xa0''\<rparr>"
        and h = "''0xc0''" and fee = "''0xfe''" and ls = "[''burners_KATANA'' \<mapsto> example_storage]"]
    by (simp add: fresh_state_def)
  have b: "init example_env False example_state =
     (Inl (Error ''BurnerManager is already initialized''), example_state)"
    using initialization_guard [where s = example_state and w = example_env and k = False]
    by (simp add: example_state_fields)
  have c: "init example_env True (run example_env [Create None, Select ''0x1''] s') =
        (Inl (Error ''BurnerManager is already initialized''),
         run example_env [Create None, Select ''0x1''] s')"
    using initialization_guard [where s = fresh_state and w = example_env and k = False
        and p = None and s' = s' and k' = True and cmds = "[Create None, Select ''0x1'']"]
      run r
    by simp
  from a b c run r show ?thesis by simp
qed


section \<open>At most one active burner\<close>

lemma active_deactivated:
  fixes xs :: "(string \<times> BurnerEntry) list"
  shows "filter (\<lambda>(addr, e). active e) (map (\<lambda>(addr, e). (addr, e\<lparr>active := False\<rparr>)) xs) = []"
  by (induction xs) auto

lemma active_addresses_deactivate_all [simp]: "active_addresses (deactivate_all st) = []"
  by (simp add: active_addresses_def entries_def deactivate_all.rep_eq active_deactivated)

lemma active_map_entry:
  fixes xs :: "(string \<times> BurnerEntry) list"
  assumes "filter (\<lambda>(addr, e). active e) xs = []"
  shows "length (filter (\<lambda>(addr, e). active e) (AList.map_entry a f xs)) \<le> 1"
  using assms by (induction xs) (auto split: if_splits)

lemma active_update:
  fixes xs :: "(string \<times> BurnerEntry) list"
  assumes "filter (\<lambda>(addr, e). active e) xs = []"
  shows "length (filter (\<lambda>(addr, e). active e) (AList.update a v xs)) \<le> 1"
  using assms by (induction xs) (auto split: if_splits)

lemma at_most_one_selected [simp]:
  "at_most_one_active (DAList.map_entry a f (deactivate_all st))"
  using active_map_entry [OF active_deactivated, of a f "DAList.impl_of st"]
  by (simp add: at_most_one_active_def active_addresses_def entries_def DAList.map_entry.rep_eq
      deactivate_all.rep_eq)

lemma at_most_one_updated [simp]:
  "at_most_one_active (DAList.update a v (deactivate_all st))"
  using active_update [OF active_deactivated, of a v "DAList.impl_of st"]
  by (simp add: at_most_one_active_def active_addresses_def entries_def DAList.update.rep_eq
      deactivate_all.rep_eq)

lemma at_most_one_deactivated [simp]: "at_most_one_active (deactivate_all st)"
  by (simp add: at_most_one_active_def)

lemma at_most_one_empty [simp]: "at_most_one_active DAList.empty"
  by (simp add: at_most_one_active_def active_addresses_def entries_def DAList.empty.rep_eq)

lemma at_most_one_no_keys: "keys st = [] \<Longrightarrow> at_most_one_active st"
  by (simp add: at_most_one_active_def active_addresses_def entries_def keys_def)

lemma at_most_one_delete:
  "at_most_one_active st \<Longrightarrow> at_most_one_active (DAList.delete a st)"
proof -
  have "length (filter P (filter Q xs)) \<le> length (filter P xs)"
    for P Q and xs :: "(string \<times> BurnerEntry) list"
    by (induction xs) auto
  then show "at_most_one_active st \<Longrightarrow> at_most_one_active (DAList.delete a st)"
    unfolding at_most_one_active_def active_addresses_def entries_def DAList.delete.rep_eq
      AList.delete_eq length_map
    by (rule le_trans)
qed

lemma at_most_one_fold_delete:
  "at_most_one_active st \<Longrightarrow> at_most_one_active (fold DAList.delete xs st)"
  by (induction xs arbitrary: st) (simp_all add: at_most_one_delete)

lemma at_most_one_after_delete [simp]: "at_most_one_active (after_delete a st)"
  by (cases "keys (DAList.delete a st)")
     (simp_all add: after_delete_def at_most_one_no_keys del: keys_delete)

lemma storage_inv_Storage_set:
  "storage_inv s \<Longrightarrow> at_most_one_active st \<Longrightarrow> storage_inv (Storage_set key st s)"
  by (simp add: storage_inv_def Storage_set_def)

lemma storage_inv_Storage_remove: "storage_inv s \<Longrightarrow> storage_inv (Storage_remove key s)"
  by (simp add: storage_inv_def Storage_remove_def)

lemma storage_inv_cong: "localStorage s' = localStorage s \<Longrightarrow> storage_inv s' = storage_inv s"
  by (simp add: storage_inv_def)

lemma storage_inv_getBurnerStorage: "storage_inv s \<Longrightarrow> at_most_one_active (getBurnerStorage s)"
  by (auto simp add: storage_inv_def getBurnerStorage_def Storage_get_def split: option.split)

lemma storage_inv_localStorage:
  "storage_inv s \<Longrightarrow> localStorage s' = (localStorage s)(key \<mapsto> st) \<Longrightarrow> at_most_one_active st
     \<Longrightarrow> storage_inv s'"
  by (simp add: storage_inv_def)

lemma select_inv: "storage_inv s \<Longrightarrow> storage_inv (snd (select addr s))"
proof (cases "get_property (getBurnerStorage s) addr")
  case Undefined
  then show "storage_inv s \<Longrightarrow> storage_inv (snd (select addr s))" by (simp add: select_def)
next
  case Inherited
  assume inv: "storage_inv s"
  have "select addr s =
      (Inr (),
       (Storage_set (getBurnerKey s) (deactivate_all (getBurnerStorage s)) s)
         \<lparr>this_account := Some \<lparr>address = addr, signer = None\<rparr>\<rparr>)"
    using Inherited by (simp add: select_def Let_def)
  then show "storage_inv (snd (select addr s))"
    using storage_inv_localStorage [OF inv, where key = "getBurnerKey s"
        and st = "deactivate_all (getBurnerStorage s)"]
    by simp
next
  case (Own e)
  then have look: "DAList.lookup (getBurnerStorage s) addr = Some e"
    by (simp add: get_property_Own)
  assume inv: "storage_inv s"
  show "storage_inv (snd (select addr s))"
    unfolding select_present [OF look] snd_conv
    by (rule storage_inv_localStorage [OF inv, where key = "getBurnerKey s"
          and st = "DAList.map_entry addr (\<lambda>e. e\<lparr>active := True\<rparr>) (deactivate_all (getBurnerStorage s))"])
       simp_all
qed

lemma deselect_inv: "storage_inv s \<Longrightarrow> storage_inv (deselect s)"
  by (rule storage_inv_localStorage [where key = "getBurnerKey s"
        and st = "deactivate_all (getBurnerStorage s)"])
     (simp_all add: deselect_def Let_def)


lemma delete_finish_inv: "storage_inv s \<Longrightarrow> storage_inv (snd (delete_finish p s))"
proof (cases p)
  case (Threw e)
  then show "storage_inv s \<Longrightarrow> storage_inv (snd (delete_finish p s))"
    by (simp add: delete_finish_def)
next
  case Caught
  then show "storage_inv s \<Longrightarrow> storage_inv (snd (delete_finish p s))"
    by (simp add: delete_finish_def)
next
  case (Draining st addr out)
  assume inv: "storage_inv s"
  show "storage_inv (snd (delete_finish p s))"
  proof (cases out)
    case (Inl err)
    with Draining inv show ?thesis by (simp add: delete_finish_failed)
  next
    case (Inr u)
    from delete_finish_drained [of st addr u s]
    obtain s' where "delete_finish (Draining st addr (Inr u)) s = (Inr (), s')"
      and "localStorage s' = (localStorage s)(getBurnerKey s \<mapsto> after_delete addr st)"
      by blast
    with Draining Inr storage_inv_localStorage [OF inv, of s' "getBurnerKey s" "after_delete addr st"]
    show ?thesis by simp
  qed
qed

lemma delete_inv: "storage_inv s \<Longrightarrow> storage_inv (snd (delete w addr td s))"
proof -
  assume inv: "storage_inv s"
  obtain p s1 where b: "delete_begin w addr td s = (p, s1)"
    by (cases "delete_begin w addr td s")
  from delete_begin_frame [OF b] inv have "storage_inv s1"
    by (simp add: storage_inv_def)
  then show ?thesis
    using b by (simp add: delete_def delete_finish_inv)
qed

lemma settle_all_inv: "storage_inv s \<Longrightarrow> storage_inv (snd (settle_all ps s))"
proof (induction ps arbitrary: s)
  case Nil
  then show ?case by simp
next
  case (Cons p ps)
  obtain r s1 where f: "delete_finish p s = (r, s1)"
    by (cases "delete_finish p s")
  with delete_finish_inv [OF Cons.prems, of p] have "storage_inv s1" by simp
  with Cons.IH f show ?case by (cases r) simp_all
qed

lemma begin_all_localStorage:
  "localStorage (snd (begin_all w td addrs s)) = localStorage s"
proof (induction addrs arbitrary: s)
  case Nil
  then show ?case by simp
next
  case (Cons addr addrs)
  obtain p s1 where b: "delete_begin w addr td s = (p, s1)"
    by (cases "delete_begin w addr td s")
  with delete_begin_frame [OF b] Cons [of s1] show ?case
    by (auto split: prod.split)
qed

lemma clear_finish_inv: "storage_inv s \<Longrightarrow> storage_inv (snd (clear_finish choices ps s))"
proof -
  assume inv: "storage_inv s"
  obtain r s1 where f: "settle_all (completion_order choices ps) s = (r, s1)"
    by (cases "settle_all (completion_order choices ps) s")
  with settle_all_inv [OF inv, of "completion_order choices ps"] have "storage_inv s1" by simp
  with f show ?thesis
    by (cases r) (simp_all add: clear_finish_def storage_inv_Storage_remove)
qed

lemma clear_inv: "storage_inv s \<Longrightarrow> storage_inv (snd (clear w td choices s))"
proof -
  assume inv: "storage_inv s"
  obtain ps s1 where b: "clear_begin w td s = (ps, s1)"
    by (cases "clear_begin w td s")
  with begin_all_localStorage [of w td "keys (getBurnerStorage s)" s]
  have "localStorage s1 = localStorage s" by (simp add: clear_begin_def)
  with inv have "storage_inv s1" by (simp add: storage_inv_def)
  with b show ?thesis by (simp add: clear_def clear_finish_inv)
qed

lemma frame_inv: "frame s s' \<Longrightarrow> storage_inv s' = storage_inv s"
  by (simp add: frame_def storage_inv_def)

lemma create_store_inv: "storage_inv s \<Longrightarrow> storage_inv (create_store options k tx burner s)"
  using create_store_spec [of options k tx burner s]
  by (auto intro: storage_inv_localStorage)

lemma create_inv: "storage_inv s \<Longrightarrow> storage_inv (snd (create w options s))"
proof (cases "this_isInitialized s")
  case False
  then show "storage_inv s \<Longrightarrow> storage_inv (snd (create w options s))"
    by (simp add: create_def)
next
  case True
  assume inv: "storage_inv s"
  define s1 where "s1 = updateIsDeploying True s"
  define k where "k = generateKeysAndAddress w options s1"
  define td where "td = (case options of None \<Rightarrow> None | Some opts \<Rightarrow> transactionDetails opts)"
  define amount where "amount =
     (case options of
        None \<Rightarrow> PREFUND_AMOUNT
      | Some opts \<Rightarrow>
          if truthy (prefundedAmount opts)
          then (case prefundedAmount opts of None \<Rightarrow> PREFUND_AMOUNT | Some a \<Rightarrow> a)
          else PREFUND_AMOUNT)"
  define payload where "payload =
     \<lparr>classHash = this_accountClassHash s1, constructorCalldata = compile w [keys_publicKey k],
      addressSalt = keys_publicKey k\<rparr>"
  define b where "b = \<lparr>address = keys_address k, signer = Some (keys_privateKey k)\<rparr>"
  obtain r s2 where pf: "prefundAccount w (keys_address k) (this_masterAccount s1)
      (this_feeTokenAddress s1) amount td s1 = (r, s2)"
    by (cases "prefundAccount w (keys_address k) (this_masterAccount s1)
      (this_feeTokenAddress s1) amount td s1")
  define s3 where "s3 = (case r of Inl _ \<Rightarrow> updateIsDeploying False s2 | Inr _ \<Rightarrow> s2)"
  obtain rd s4 where dp: "create_deploy w b payload td s3 = (rd, s4)"
    by (cases "create_deploy w b payload td s3")
  have unfolded: "create w options s =
      (case rd of
         Inl e \<Rightarrow> (Inl e, s4)
       | Inr tx \<Rightarrow>
           (case create_wait w tx s4 of
              (Inl e, s5) \<Rightarrow> (Inl e, s5)
            | (Inr _, s5) \<Rightarrow> (Inr b, create_store options k tx b s5)))"
    using True pf dp
    unfolding s3_def b_def payload_def amount_def td_def k_def s1_def
    by (simp add: create_def Let_def)
  have f1: "frame s s1" by (simp add: s1_def)
  have f2: "frame s1 s2" by (rule frame_prefundAccount [OF pf])
  have f3: "frame s2 s3" by (cases r) (simp_all add: s3_def)
  have f4: "frame s3 s4" by (rule frame_create_deploy [OF dp])
  have f: "frame s s4"
    by (rule frame_trans [OF frame_trans [OF frame_trans [OF f1 f2] f3] f4])
  with inv have i4: "storage_inv s4" by (simp add: frame_inv)
  show "storage_inv (snd (create w options s))"
  proof (cases rd)
    case (Inl e)
    with unfolded i4 show ?thesis by simp
  next
    case (Inr tx)
    obtain rw s5 where wt: "create_wait w tx s4 = (rw, s5)"
      by (cases "create_wait w tx s4")
    from frame_create_wait [OF wt] i4 have "storage_inv s5"
      by (simp add: frame_inv)
    with unfolded Inr wt show ?thesis by (cases rw) (simp_all add: create_store_inv)
  qed
qed

lemma check_all_frame: "frame s (snd (check_all w xs s))"
proof (induction xs arbitrary: s)
  case Nil
  then show ?case by simp
next
  case (Cons x xs)
  obtain addr e where x: "x = (addr, e)" by (cases x)
  obtain d s1 where i: "isBurnerDeployed w (deployTx e) s = (d, s1)"
    by (cases "isBurnerDeployed w (deployTx e) s")
  from frame_trans [OF frame_isBurnerDeployed [OF i] Cons [of s1]] x i show ?case
    by (auto split: prod.split)
qed

lemma setActiveBurnerAccount_localStorage [simp]:
  "localStorage (setActiveBurnerAccount st s) = localStorage s"
  by (simp add: setActiveBurnerAccount_def split: option.split prod.split)

lemma init_inv: "storage_inv s \<Longrightarrow> storage_inv (snd (init w k s))"
proof (cases "this_isInitialized s")
  case True
  then show "storage_inv s \<Longrightarrow> storage_inv (snd (init w k s))" by (simp add: init_def)
next
  case False
  assume inv: "storage_inv s"
  show "storage_inv (snd (init w k s))"
  proof (cases "getChainId w (now s)")
    case (Inl e)
    with False inv show ?thesis by (simp add: init_def storage_inv_def)
  next
    case (Inr c)
    define s1 where "s1 = (emit GetChainId s)\<lparr>this_chainId := decodeShortString w c\<rparr>"
    define storage where "storage = getBurnerStorage s1"
    obtain toRemove s2 where ch: "check_all w (entries storage) s1 = (toRemove, s2)"
      by (cases "check_all w (entries storage) s1")
    define storage1 where "storage1 = (if k then storage else fold DAList.delete toRemove storage)"
    have i1: "storage_inv s1" using inv by (simp add: s1_def storage_inv_def)
    from check_all_frame [of s1 w "entries storage"] ch have "frame s1 s2" by simp
    with i1 have i2: "storage_inv s2" by (simp add: frame_inv)
    from i1 have "at_most_one_active storage"
      unfolding storage_def by (rule storage_inv_getBurnerStorage)
    then have a1: "at_most_one_active storage1"
      by (simp add: storage1_def at_most_one_fold_delete)
    have unfolded: "init w k s =
        (if keys storage1 \<noteq> []
         then (Inr None,
               (setActiveBurnerAccount storage1 (Storage_set (getBurnerKey s2) storage1 s2))
                 \<lparr>this_isInitialized := True\<rparr>)
         else (case clear_begin w None s2 of
                 (ps, s3) \<Rightarrow> (Inr (Some ps), s3\<lparr>this_isInitialized := True\<rparr>)))"
      using False Inr ch unfolding storage1_def storage_def s1_def
      by (simp add: init_def Let_def)
    show ?thesis
    proof (cases "keys storage1 \<noteq> []")
      case True
      have "storage_inv (Storage_set (getBurnerKey s2) storage1 s2)"
        by (rule storage_inv_Storage_set [OF i2 a1])
      then show ?thesis
        using True unfolded by (simp add: storage_inv_def)
    next
      case False
      obtain ps s3 where cb: "clear_begin w None s2 = (ps, s3)"
        by (cases "clear_begin w None s2")
      with begin_all_localStorage [of w None "keys (getBurnerStorage s2)" s2]
      have "localStorage s3 = localStorage s2" by (simp add: clear_begin_def)
      with i2 have "storage_inv s3" by (simp add: storage_inv_def)
      with False unfolded cb show ?thesis by (simp add: storage_inv_def)
    qed
  qed
qed

lemma getBurnerKey_Storage_set: "getBurnerKey (Storage_set key v s) = getBurnerKey s"
  by (simp add: getBurnerKey_def)

lemma find_Some_mem: "find P xs = Some x \<Longrightarrow> x \<in> set xs"
  by (induction xs) (auto split: if_splits)

lemma at_most_one_no_first_active:
  "first_active burners = None \<Longrightarrow> at_most_one_active burners"
proof -
  assume "first_active burners = None"
  then have "find (\<lambda>(addr, burner). active burner) (entries burners) = None"
    by (auto simp add: first_active_def split: option.splits prod.splits)
  then have "filter (\<lambda>(addr, burner). active burner) (entries burners) = []"
    by (auto simp add: find_None_iff filter_empty_conv)
  then show ?thesis
    by (simp add: at_most_one_active_def active_addresses_def)
qed

lemma setBurnersFromClipboard_inv:
  assumes "storage_inv s" and "clipboard_ok (SetBurnersFromClipboard clipboard)"
  shows "storage_inv (snd (setBurnersFromClipboard clipboard s))"
proof (cases clipboard)
  case (Inl e)
  with assms show ?thesis by (simp add: setBurnersFromClipboard_def)
next
  case (Inr burners)
  let ?s1 = "Storage_set (getBurnerKey s) burners s"
  have run: "setBurnersFromClipboard clipboard s =
      (if truthy (first_active burners)
       then (case first_active burners of None \<Rightarrow> (Inr (), ?s1) | Some addr \<Rightarrow> select addr ?s1)
       else (Inr (), ?s1))"
    using Inr by (simp add: setBurnersFromClipboard_def first_active_def Let_def)
  show ?thesis
  proof (cases "first_active burners")
    case None
    then have "at_most_one_active burners" by (rule at_most_one_no_first_active)
    with assms(1) have "storage_inv ?s1" by (rule storage_inv_Storage_set)
    with run None show ?thesis by (simp add: truthy_def)
  next
    case (Some addr)
    show ?thesis
    proof (cases "addr = []")
      case True
      with Some Inr assms(2) have "at_most_one_active burners" by simp
      with assms(1) have "storage_inv ?s1" by (rule storage_inv_Storage_set)
      with run Some True show ?thesis by (simp add: truthy_def)
    next
      case False
      have sel: "DAList.lookup (getBurnerStorage ?s1) addr \<noteq> None"
      proof -
        from Some obtain e where "find (\<lambda>(addr, burner). active burner) (entries burners) = Some (addr, e)"
          by (auto simp add: first_active_def split: option.splits)
        then have "(addr, e) \<in> set (entries burners)"
          by (rule find_Some_mem)
        then have "addr \<in> set (keys burners)"
          by (force simp add: keys_def entries_def)
        then show ?thesis by (simp add: keys_lookup)
      qed
      then obtain e where e: "DAList.lookup (getBurnerStorage ?s1) addr = Some e" by blast
      have "storage_inv (snd (select addr ?s1))"
        unfolding select_present [OF e] snd_conv
        by (rule storage_inv_localStorage [OF assms(1), where key = "getBurnerKey s"
              and st = "DAList.map_entry addr (\<lambda>e. e\<lparr>active := True\<rparr>) (deactivate_all burners)"])
           (simp_all add: getBurnerKey_Storage_set)
      with run Some False show ?thesis by (simp add: truthy_def)
    qed
  qed
qed

lemma exec_inv: "storage_inv s \<Longrightarrow> clipboard_ok c \<Longrightarrow> storage_inv (exec w c s)"
proof (cases c)
  case (SetBurnersFromClipboard clipboard)
  then show "storage_inv s \<Longrightarrow> clipboard_ok c \<Longrightarrow> storage_inv (exec w c s)"
    by (simp add: setBurnersFromClipboard_inv)
qed (simp_all add: init_inv create_inv select_inv deselect_inv delete_inv clear_inv
      delete_finish_inv storage_inv_Storage_remove)

lemma run_inv:
  "storage_inv s \<Longrightarrow> \<forall>c \<in> set cmds. clipboard_ok c \<Longrightarrow> storage_inv (run w cmds s)"
  unfolding run_def by (induction cmds arbitrary: s) (simp_all add: exec_inv)


lemma entries_bad_clipboard:
  "entries bad_clipboard =
     [([], example_entry ''0xc1'' ''0xaa'' True), (''0x2'', example_entry ''0xc2'' ''0xaa'' True)]"
  by (simp add: entries_def bad_clipboard_def DAList.update.rep_eq DAList.empty.rep_eq)

text \<open>
  Claim C9, on an input where the invariant is lost. The storage holds one active burner.
  The clipboard holds two burners marked active, the first of them under the empty string
  as its address. \<open>setBurnersFromClipboard\<close> finds that first active address, stores the
  pasted burners, and then skips \<open>select\<close> because the empty string fails the test
  \<^verbatim>\<open>if (activeAddress)\<close>: it returns normally and the storage holds two active burners.
  Apart from this case every operation keeps the invariant (\<open>run_inv\<close>).
\<close>

theorem clipboard_two_active:
  "at_most_one_active (getBurnerStorage example_state) \<and>
   fst (setBurnersFromClipboard (Inr bad_clipboard) example_state) = Inr () \<and>
   active_addresses
     (getBurnerStorage (snd (setBurnersFromClipboard (Inr bad_clipboard) example_state))) =
     [[], ''0x2''] \<and>
   \<not> at_most_one_active
     (getBurnerStorage (snd (setBurnersFromClipboard (Inr bad_clipboard) example_state)))"
proof -
  have before: "at_most_one_active (getBurnerStorage example_state)"
    by (simp add: at_most_one_active_def active_addresses_def entries_example_storage
        example_entry_def)
  have run: "setBurnersFromClipboard (Inr bad_clipboard) example_state =
      (Inr (), Storage_set (getBurnerKey example_state) bad_clipboard example_state)"
    by (simp add: setBurnersFromClipboard_def first_active_def entries_bad_clipboard
        example_entry_def truthy_def Let_def)
  have after: "active_addresses bad_clipboard = [[], ''0x2'']"
    by (simp add: active_addresses_def entries_bad_clipboard example_entry_def)
  from before run after show ?thesis
    by (simp add: at_most_one_active_def)
qed

section \<open>Where the keys come from\<close>




section \<open>Names inherited from the prototype\<close>

lemma active_addresses_example: "active_addresses example_storage = [''0x1'']"
  by (simp add: active_addresses_def entries_example_storage example_entry_def)

text \<open>
  Claim C4, on an address that is not stored. The storage holds \<open>0x1\<close> (active),
  \<open>0x2\<close> and \<open>0x3\<close>. \<^verbatim>\<open>storage["constructor"]\<close> is the inherited constructor
  function, so the guard of line 219 does not throw: \<open>select\<close> returns normally, the
  storage it persists has every flag cleared and so differs from the one before, and the
  account is set to one with address \<open>constructor\<close> and no private key.
\<close>

theorem select_inherited_name:
  "DAList.lookup (getBurnerStorage example_state) ''constructor'' = None \<and>
   active_addresses (getBurnerStorage example_state) = [''0x1''] \<and>
   fst (select ''constructor'' example_state) = Inr () \<and>
   getBurnerStorage (snd (select ''constructor'' example_state)) =
     deactivate_all example_storage \<and>
   active_addresses (getBurnerStorage (snd (select ''constructor'' example_state))) = [] \<and>
   getBurnerStorage (snd (select ''constructor'' example_state)) \<noteq>
     getBurnerStorage example_state \<and>
   this_account (snd (select ''constructor'' example_state)) =
     Some \<lparr>address = ''constructor'', signer = None\<rparr>"
proof -
  have absent: "DAList.lookup (getBurnerStorage example_state) ''constructor'' = None"
    by (simp add: example_storage_def)
  then have p: "get_property (getBurnerStorage example_state) ''constructor'' = Inherited"
    by (simp add: get_property_def Object_prototype_def)
  have run: "select ''constructor'' example_state =
      (Inr (),
       (Storage_set (getBurnerKey example_state) (deactivate_all example_storage) example_state)
         \<lparr>this_account := Some \<lparr>address = ''constructor'', signer = None\<rparr>\<rparr>)"
    using p by (simp add: select_def Let_def)
  have st: "getBurnerStorage (snd (select ''constructor'' example_state)) =
      deactivate_all example_storage"
    unfolding run by simp
  have differ: "deactivate_all example_storage \<noteq> example_storage"
  proof
    assume "deactivate_all example_storage = example_storage"
    then have "active_addresses (deactivate_all example_storage) = active_addresses example_storage"
      by simp
    then show False by (simp add: active_addresses_example)
  qed
  show ?thesis
    using absent run st differ by (simp add: active_addresses_example)
qed

text \<open>
  Claim C2, on an address that is not stored. \<^verbatim>\<open>storage["toString"]\<close> is the inherited
  function, so the guard of line 265 does not throw: \<open>delete\<close> requests the drain of an
  account with address \<open>toString\<close> and no private key, and returns normally whether
  the drain throws or not.
\<close>

theorem delete_inherited_name:
  "DAList.lookup (getBurnerStorage example_state) ''toString'' = None \<and>
   delete drain_fails_env ''toString'' None example_state =
     (Inr (), example_state\<lparr>calls :=
        [EmptyAccount ''0xaa'' \<lparr>address = ''toString'', signer = None\<rparr> ''0xfe'' None]\<rparr>) \<and>
   fst (delete example_env ''toString'' None example_state) = Inr () \<and>
   calls (snd (delete example_env ''toString'' None example_state)) =
     [EmptyAccount ''0xaa'' \<lparr>address = ''toString'', signer = None\<rparr> ''0xfe'' None]"
proof -
  have absent: "DAList.lookup (getBurnerStorage example_state) ''toString'' = None"
    by (simp add: example_storage_def)
  then have p: "get_property (getBurnerStorage example_state) ''toString'' \<noteq> Undefined"
    by (simp add: get_property_def Object_prototype_def)
  have fields: "address (this_masterAccount example_state) = ''0xaa''"
    "this_feeTokenAddress example_state = ''0xfe''" "calls example_state = []"
    by (simp_all add: example_state_def constructor_def)
  from delete_cases [where s = example_state and addr = "''toString''" and w = drain_fails_env
      and td = None] p absent fields
  have a: "delete drain_fails_env ''toString'' None example_state =
     (Inr (), example_state\<lparr>calls :=
        [EmptyAccount ''0xaa'' \<lparr>address = ''toString'', signer = None\<rparr> ''0xfe'' None]\<rparr>)"
    by (simp add: example_env_def drain_fails_env_def)
  from delete_cases [where s = example_state and addr = "''toString''" and w = example_env
      and td = None] p absent fields
  have b: "fst (delete example_env ''toString'' None example_state) = Inr () \<and>
   calls (snd (delete example_env ''toString'' None example_state)) =
     [EmptyAccount ''0xaa'' \<lparr>address = ''toString'', signer = None\<rparr> ''0xfe'' None]"
    by (auto simp add: example_env_def)
  from absent a b show ?thesis by blast
qed

end
